theory Spec2Isabelle
  imports Complex_Main
begin

section \<open>Status codes and vectors\<close>

text \<open>
  \<^verbatim>\<open>HRESULT\<close> is an integer status. The macros \<^verbatim>\<open>S_OK\<close>, \<^verbatim>\<open>E_FAIL\<close> and \<^verbatim>\<open>NULL\<close> come from
  platform headers that are not part of the sources; they have the values of the HRESULT
  convention: success is zero, the unspecified failure is 0x80004005 read as a signed
  32-bit integer, and the null constant converts to the integer zero.
\<close>

type_synonym HRESULT = int

definition S_OK :: HRESULT where
  "S_OK = 0"

definition E_FAIL :: HRESULT where
  "E_FAIL = - 2147467259"

definition NULL :: HRESULT where
  "NULL = 0"

text \<open>
  \<^verbatim>\<open>FVector3\<close> with the vector operations the code uses. Components are real numbers:
  rounding, infinities and NaN of the floating-point type are outside the model.
\<close>

type_synonym FVector3 = "real \<times> real \<times> real"

fun vadd :: "FVector3 \<Rightarrow> FVector3 \<Rightarrow> FVector3" where
  "vadd (a1, a2, a3) (b1, b2, b3) = (a1 + b1, a2 + b2, a3 + b3)"

fun vsub :: "FVector3 \<Rightarrow> FVector3 \<Rightarrow> FVector3" where
  "vsub (a1, a2, a3) (b1, b2, b3) = (a1 - b1, a2 - b2, a3 - b3)"

fun vscale :: "FVector3 \<Rightarrow> real \<Rightarrow> FVector3" where
  "vscale (a1, a2, a3) c = (a1 * c, a2 * c, a3 * c)"

fun vdiv :: "FVector3 \<Rightarrow> real \<Rightarrow> FVector3" where
  "vdiv (a1, a2, a3) c = (a1 / c, a2 / c, a3 / c)"

fun vneg :: "FVector3 \<Rightarrow> FVector3" where
  "vneg (a1, a2, a3) = (- a1, - a2, - a3)"

fun vdot :: "FVector3 \<Rightarrow> FVector3 \<Rightarrow> real" where
  "vdot (a1, a2, a3) (b1, b2, b3) = a1 * b1 + a2 * b2 + a3 * b3"

definition vlength :: "FVector3 \<Rightarrow> real" where
  "vlength a = sqrt (vdot a a)"

definition vnormalized :: "FVector3 \<Rightarrow> FVector3" where
  "vnormalized a = vdiv a (vlength a)"

section \<open>Float arithmetic\<close>

text \<open>
  The code computes with \<^verbatim>\<open>float\<close> and with vectors of three of them. Where a claim
  depends on what that arithmetic returns, the model takes it as an argument: the sum and
  the difference of two vectors and the product of a vector by a scalar, on any type of
  vectors and any type of scalars.
\<close>

record ('v, 's) arithmetic =
  vplus :: "'v \<Rightarrow> 'v \<Rightarrow> 'v"
  vminus :: "'v \<Rightarrow> 'v \<Rightarrow> 'v"
  vtimes :: "'v \<Rightarrow> 's \<Rightarrow> 'v"

text \<open>
  The arithmetic of the machine: IEEE 754 binary32, every operation rounded to nearest,
  ties to even. A value is finite, given by the real number it stands for (the sign of a
  zero is not kept), or an infinity, or not a number. Between \<open>2 ^ e\<close> and \<open>2 ^ (e + 1)\<close>
  the finite values are spaced \<open>2 ^ (e - 23)\<close> apart, and \<open>2 ^ (- 149)\<close> apart below
  \<open>2 ^ (- 126)\<close>; a result whose rounded magnitude reaches \<open>2 ^ 128\<close> is an infinity.
\<close>

datatype binary32 = Finite real | PlusInfinity | MinusInfinity | NaN

definition roundEven :: "real \<Rightarrow> int" where
  "roundEven r =
     (let f = \<lfloor>r\<rfloor>; d = r - of_int f in
      if d < 1 / 2 then f else if d > 1 / 2 then f + 1 else if even f then f else f + 1)"

definition ulp32 :: "real \<Rightarrow> real" where
  "ulp32 x = 2 powr (of_int (max \<lfloor>log 2 \<bar>x\<bar>\<rfloor> (- 126)) - 23)"

definition round32 :: "real \<Rightarrow> binary32" where
  "round32 x =
     (if x = 0 then Finite 0
      else
        let y = ulp32 x * of_int (roundEven (x / ulp32 x)) in
        if 2 ^ 128 \<le> y then PlusInfinity
        else if y \<le> - (2 ^ 128) then MinusInfinity
        else Finite y)"

fun neg32 :: "binary32 \<Rightarrow> binary32" where
  "neg32 (Finite a) = Finite (- a)"
| "neg32 PlusInfinity = MinusInfinity"
| "neg32 MinusInfinity = PlusInfinity"
| "neg32 NaN = NaN"

fun add32 :: "binary32 \<Rightarrow> binary32 \<Rightarrow> binary32" where
  "add32 (Finite a) (Finite b) = round32 (a + b)"
| "add32 (Finite a) PlusInfinity = PlusInfinity"
| "add32 (Finite a) MinusInfinity = MinusInfinity"
| "add32 PlusInfinity (Finite b) = PlusInfinity"
| "add32 PlusInfinity PlusInfinity = PlusInfinity"
| "add32 PlusInfinity MinusInfinity = NaN"
| "add32 MinusInfinity (Finite b) = MinusInfinity"
| "add32 MinusInfinity MinusInfinity = MinusInfinity"
| "add32 MinusInfinity PlusInfinity = NaN"
| "add32 NaN y = NaN"
| "add32 x NaN = NaN"

definition sub32 :: "binary32 \<Rightarrow> binary32 \<Rightarrow> binary32" where
  "sub32 x y = add32 x (neg32 y)"

text \<open>The infinity of the sign of a nonzero real, and the product.\<close>

definition infinity32 :: "real \<Rightarrow> binary32" where
  "infinity32 a = (if a = 0 then NaN else if 0 < a then PlusInfinity else MinusInfinity)"

fun mul32 :: "binary32 \<Rightarrow> binary32 \<Rightarrow> binary32" where
  "mul32 (Finite a) (Finite b) = round32 (a * b)"
| "mul32 (Finite a) PlusInfinity = infinity32 a"
| "mul32 (Finite a) MinusInfinity = infinity32 (- a)"
| "mul32 PlusInfinity (Finite b) = infinity32 b"
| "mul32 MinusInfinity (Finite b) = infinity32 (- b)"
| "mul32 PlusInfinity PlusInfinity = PlusInfinity"
| "mul32 PlusInfinity MinusInfinity = MinusInfinity"
| "mul32 MinusInfinity PlusInfinity = MinusInfinity"
| "mul32 MinusInfinity MinusInfinity = PlusInfinity"
| "mul32 NaN y = NaN"
| "mul32 x NaN = NaN"

type_synonym Vector3f = "binary32 \<times> binary32 \<times> binary32"

fun vadd32 :: "Vector3f \<Rightarrow> Vector3f \<Rightarrow> Vector3f" where
  "vadd32 (a1, a2, a3) (c1, c2, c3) = (add32 a1 c1, add32 a2 c2, add32 a3 c3)"

fun vsub32 :: "Vector3f \<Rightarrow> Vector3f \<Rightarrow> Vector3f" where
  "vsub32 (a1, a2, a3) (c1, c2, c3) = (sub32 a1 c1, sub32 a2 c2, sub32 a3 c3)"

fun vscale32 :: "Vector3f \<Rightarrow> binary32 \<Rightarrow> Vector3f" where
  "vscale32 (a1, a2, a3) c = (mul32 a1 c, mul32 a2 c, mul32 a3 c)"

definition binary32_arithmetic :: "(Vector3f, binary32) arithmetic" where
  "binary32_arithmetic = \<lparr>vplus = vadd32, vminus = vsub32, vtimes = vscale32\<rparr>"

section \<open>Mesh objects\<close>

text \<open>
  Objects live in a store indexed by address; a pointer is an address, a nullable pointer
  an \<open>addr option\<close>. One record carries the fields of all four variants:
  \<^item> \<open>objId\<close>, \<open>mesh\<close>: the identifier and the back-reference of \<^verbatim>\<open>MeshObj\<close>;
  \<^item> \<open>objType\<close>: what \<^verbatim>\<open>objType()\<close> returns;
  \<^item> \<open>parents\<close>, \<open>children\<close>: what \<^verbatim>\<open>parents()\<close> and \<^verbatim>\<open>children()\<close> return. The code
    treats the vertices of a Surface as its parents and the Surfaces of a Vertex as its
    children (\<^verbatim>\<open>s->removeParent(v); v->removeChild(s)\<close>), and the Surfaces of a Body as
    its parents (\<^verbatim>\<open>b->addParent(toKeep); toKeep->addChild(b)\<close>); so \<^verbatim>\<open>s->vertices\<close> is
    \<open>parents\<close> of a Surface, \<^verbatim>\<open>v->surfaces\<close> is \<open>children\<close> of a Vertex and
    \<^verbatim>\<open>b->surfaces\<close> is \<open>parents\<close> of a Body;
  \<^item> \<open>valid\<close>: what \<^verbatim>\<open>validate()\<close> reports (the variant-specific checks are not in the
    sources);
  \<^item> \<open>position\<close>, \<open>mass\<close>: position and mass of the particle of a Vertex. The type of
    positions is the parameter \<open>'p\<close> of the record: the operations that only move
    objects between inventories work for every such type, the operations modelled with
    positions in the reals take \<open>FVector3\<close>, and the vertex merge takes the float
    arithmetic of its positions as an argument;
  \<^item> \<open>normal\<close>, \<open>centroid\<close>, \<open>b1\<close>, \<open>b2\<close>: what \<^verbatim>\<open>getNormal()\<close> and \<^verbatim>\<open>getCentroid()\<close>
    return and the two Body slots of a Surface;
  \<^item> \<open>area\<close>: what \<^verbatim>\<open>getArea()\<close> returns for a Body.
\<close>

type_synonym addr = nat

datatype Type = NONE | VERTEX | SURFACE | BODY | STRUCTURE

record 'p MeshObj =
  objId :: int
  mesh :: "addr option"
  objType :: Type
  parents :: "addr list"
  children :: "addr list"
  valid :: bool
  position :: 'p
  mass :: real
  normal :: FVector3
  centroid :: FVector3
  area :: real
  b1 :: "addr option"
  b2 :: "addr option"

type_synonym 'p store = "addr \<Rightarrow> 'p MeshObj"

section \<open>The solver collaborator\<close>

text \<open>
  The solver is external. The model keeps what the mesh sends it: the dirty flag set by
  \<^verbatim>\<open>setDirty\<close>, the events passed to \<^verbatim>\<open>log\<close>, and the status that \<^verbatim>\<open>positionChanged\<close>
  answers with.
\<close>

datatype MeshLogEventType = Create | Destroy

record MeshLogEvent =
  type :: MeshLogEventType
  objIDs :: "int list"
  objTypes :: "Type list"
  name :: string

record MeshSolver =
  solverDirty :: bool
  eventLog :: "MeshLogEvent list"
  positionChangedStatus :: HRESULT

definition solver_log :: "MeshSolver option \<Rightarrow> MeshLogEvent \<Rightarrow> MeshSolver option" where
  "solver_log sol ev = map_option (\<lambda>s. s\<lparr>eventLog := eventLog s @ [ev]\<rparr>) sol"

definition solver_setDirty :: "MeshSolver option \<Rightarrow> bool \<Rightarrow> MeshSolver option" where
  "solver_setDirty sol d = map_option (\<lambda>s. s\<lparr>solverDirty := d\<rparr>) sol"

section \<open>The mesh\<close>

text \<open>
  The four inventories with their sets of available identifiers, the dirty flag and the
  solver, as in \<^verbatim>\<open>Mesh\<close>. Three more fields make the memory explicit: \<open>this\<close> is the
  address of the mesh itself, \<open>heap\<close> the store of the objects its pointers refer to, and
  \<open>brk\<close> the next address that \<^verbatim>\<open>new\<close> hands out.
\<close>

record 'p Mesh =
  vertices :: "addr option list"
  surfaces :: "addr option list"
  bodies :: "addr option list"
  structures :: "addr option list"
  vertexIdsAvail :: "nat set"
  surfaceIdsAvail :: "nat set"
  bodyIdsAvail :: "nat set"
  structureIdsAvail :: "nat set"
  isDirty :: bool
  solver :: "MeshSolver option"
  this :: addr
  heap :: "'p store"
  brk :: addr

subsection \<open>Storage checks\<close>

definition Mesh_checkUnstoredObj :: "'p store \<Rightarrow> addr option \<Rightarrow> HRESULT" where
  "Mesh_checkUnstoredObj h obj =
     (case obj of
        None \<Rightarrow> E_FAIL
      | Some p \<Rightarrow> if objId (h p) \<ge> 0 \<or> mesh (h p) \<noteq> None then E_FAIL else S_OK)"

definition Mesh_checkStoredObj :: "'p store \<Rightarrow> addr option \<Rightarrow> addr \<Rightarrow> HRESULT" where
  "Mesh_checkStoredObj h obj msh =
     (case obj of
        None \<Rightarrow> E_FAIL
      | Some p \<Rightarrow>
          if objId (h p) < 0 \<or> mesh (h p) = None \<or> mesh (h p) \<noteq> Some msh then E_FAIL
          else S_OK)"

subsection \<open>Identifier allocation\<close>

text \<open>
  \<^verbatim>\<open>Mesh_invIdAndAlloc\<close>. The block increment \<^verbatim>\<open>TFMESHINV_INCR\<close> is a macro of a header
  that is not in the sources; it is the parameter \<open>incr\<close>. \<^verbatim>\<open>availIds.begin()\<close> of the
  ordered set is its least element. The growth loop runs over \<open>i = res, ..., new_size - 1\<close>.
  Sizes and identifiers are natural numbers and integers without bound; the code's
  \<^verbatim>\<open>int\<close> and \<^verbatim>\<open>unsigned int\<close> agree with them below \<open>2 ^ 31\<close> slots. Where the index
  written to lies outside the inventory (an available identifier beyond the size, or a
  block increment of zero) the code writes out of bounds; the list update of the model
  leaves the inventory as it is. The invariant \<open>inventory_ok\<close> below and a positive
  increment exclude both.
\<close>

definition storeId :: "'p store \<Rightarrow> addr \<Rightarrow> int \<Rightarrow> 'p store" where
  "storeId h p i = h(p := (h p)\<lparr>objId := i\<rparr>)"

definition Mesh_invIdAndAlloc ::
  "nat \<Rightarrow> addr option list \<Rightarrow> nat set \<Rightarrow> addr option \<Rightarrow> 'p store
   \<Rightarrow> int \<times> addr option list \<times> nat set \<times> 'p store" where
  "Mesh_invIdAndAlloc incr invn availIds obj h =
     (if availIds \<noteq> {} then
        let objId = Min availIds in
        (case obj of
           Some p \<Rightarrow> (int objId, invn[objId := Some p], availIds - {objId}, storeId h p (int objId))
         | None \<Rightarrow> (int objId, invn, availIds - {objId}, h))
      else
        let res = length invn;
            new_size = length invn + incr;
            (inv1, avail1) =
              fold (\<lambda>i (v, a). (v @ [None], if i \<noteq> res then insert i a else a))
                   [res ..< new_size] (invn, availIds)
        in (case obj of
              Some p \<Rightarrow> (int res, inv1[res := Some p], avail1, storeId h p (int res))
            | None \<Rightarrow> (int res, inv1, avail1, h)))"

subsection \<open>Adding objects\<close>

text \<open>
  \<^verbatim>\<open>Mesh_addObj\<close>, generic in the inventory and its available set, which it receives by
  reference and which the model returns updated.
\<close>

definition Mesh_addObj ::
  "nat \<Rightarrow> addr \<Rightarrow> addr option list \<Rightarrow> nat set \<Rightarrow> addr option \<Rightarrow> MeshSolver option \<Rightarrow> 'p store
   \<Rightarrow> HRESULT \<times> addr option list \<times> nat set \<times> MeshSolver option \<times> 'p store" where
  "Mesh_addObj incr msh invn availIds obj sol h =
     (case obj of
        None \<Rightarrow> (E_FAIL, invn, availIds, sol, h)
      | Some p \<Rightarrow>
          if Mesh_checkUnstoredObj h obj \<noteq> S_OK \<or> \<not> valid (h p) then (E_FAIL, invn, availIds, sol, h)
          else
            let (i, inv1, avail1, h1) = Mesh_invIdAndAlloc incr invn availIds obj h;
                h2 = h1(p := (h1 p)\<lparr>objId := i, mesh := Some msh\<rparr>);
                ev = \<lparr>type = Create,
                      objIDs = objId (h2 p) # map (\<lambda>q. objId (h2 q)) (parents (h2 p)),
                      objTypes = objType (h2 p) # map (\<lambda>q. objType (h2 q)) (parents (h2 p)),
                      name = []\<rparr>
            in (S_OK, inv1, avail1, solver_log sol ev, h2))"

definition add_vertex :: "nat \<Rightarrow> 'p Mesh \<Rightarrow> addr option \<Rightarrow> HRESULT \<times> 'p Mesh" where
  "add_vertex incr m obj =
     (let m1 = m\<lparr>isDirty := True, solver := solver_setDirty (solver m) True\<rparr>;
          (r, invn, av, sol, h) =
            Mesh_addObj incr (this m1) (vertices m1) (vertexIdsAvail m1) obj (solver m1) (heap m1)
      in (r, m1\<lparr>vertices := invn, vertexIdsAvail := av, solver := sol, heap := h\<rparr>))"

text \<open>The loop of \<^verbatim>\<open>Mesh::add(Surface*)\<close> over the vertices of the Surface.\<close>

fun add_vertices :: "nat \<Rightarrow> 'p Mesh \<Rightarrow> addr list \<Rightarrow> HRESULT \<times> 'p Mesh" where
  "add_vertices incr m [] = (S_OK, m)"
| "add_vertices incr m (v # vs) =
     (if objId (heap m v) < 0 then
        (case add_vertex incr m (Some v) of
           (r, m') \<Rightarrow> if r \<noteq> S_OK then (E_FAIL, m') else add_vertices incr m' vs)
      else add_vertices incr m vs)"

definition add_surface :: "nat \<Rightarrow> 'p Mesh \<Rightarrow> addr \<Rightarrow> HRESULT \<times> 'p Mesh" where
  "add_surface incr m obj =
     (let m1 = m\<lparr>isDirty := True\<rparr> in
      case add_vertices incr m1 (parents (heap m1 obj)) of
        (r, m2) \<Rightarrow>
          if r \<noteq> S_OK then (E_FAIL, m2)
          else
            let (r', invn, av, sol, h) =
                  Mesh_addObj incr (this m2) (surfaces m2) (surfaceIdsAvail m2) (Some obj)
                    (solver m2) (heap m2);
                m3 = m2\<lparr>surfaces := invn, surfaceIdsAvail := av, solver := sol, heap := h\<rparr>
            in if r' \<noteq> S_OK then (E_FAIL, m3) else (S_OK, m3))"

text \<open>The loop of \<^verbatim>\<open>Mesh::add(Body*)\<close> over the Surfaces of the Body.\<close>

fun add_surfaces :: "nat \<Rightarrow> 'p Mesh \<Rightarrow> addr list \<Rightarrow> HRESULT \<times> 'p Mesh" where
  "add_surfaces incr m [] = (S_OK, m)"
| "add_surfaces incr m (s # ss) =
     (if objId (heap m s) < 0 then
        (case add_surface incr m s of
           (r, m') \<Rightarrow> if r \<noteq> S_OK then (E_FAIL, m') else add_surfaces incr m' ss)
      else add_surfaces incr m ss)"

definition add_body :: "nat \<Rightarrow> 'p Mesh \<Rightarrow> addr \<Rightarrow> HRESULT \<times> 'p Mesh" where
  "add_body incr m obj =
     (let m1 = m\<lparr>isDirty := True\<rparr> in
      case add_surfaces incr m1 (parents (heap m1 obj)) of
        (r, m2) \<Rightarrow>
          if r \<noteq> S_OK then (E_FAIL, m2)
          else
            let (r', invn, av, sol, h) =
                  Mesh_addObj incr (this m2) (bodies m2) (bodyIdsAvail m2) (Some obj)
                    (solver m2) (heap m2);
                m3 = m2\<lparr>bodies := invn, bodyIdsAvail := av, solver := sol, heap := h\<rparr>
            in if r' \<noteq> S_OK then (E_FAIL, m3) else (S_OK, m3))"

text \<open>
  \<^verbatim>\<open>Mesh::add(Structure*)\<close> calls itself on the unregistered Structure parents, and nothing
  bounds the depth: a Structure that is its own unregistered parent recurses forever. The
  model counts the nesting depth down from \<open>fuel\<close>; \<open>None\<close> is the call that does not
  return.
\<close>

text \<open>
  Modelled from the spec: \<^verbatim>\<open>TissueForge::models::vertex::check\<close> is missing. It tests
  whether the variant tag of the object is the given one.
\<close>

definition check :: "'p store \<Rightarrow> addr \<Rightarrow> Type \<Rightarrow> bool" where
  "check h p t = (objType (h p) = t)"

fun add_parents ::
  "('p Mesh \<Rightarrow> addr \<Rightarrow> (HRESULT \<times> 'p Mesh) option) \<Rightarrow> nat \<Rightarrow> 'p Mesh \<Rightarrow> addr list
   \<Rightarrow> (HRESULT \<times> 'p Mesh) option" where
  "add_parents rec incr m [] = Some (S_OK, m)"
| "add_parents rec incr m (p # ps) =
     (if objId (heap m p) \<ge> 0 then add_parents rec incr m ps
      else if check (heap m) p STRUCTURE then
        (case rec m p of
           None \<Rightarrow> None
         | Some (r, m') \<Rightarrow> if r \<noteq> S_OK then Some (E_FAIL, m') else add_parents rec incr m' ps)
      else if check (heap m) p BODY then
        (case add_body incr m p of
           (r, m') \<Rightarrow> if r \<noteq> S_OK then Some (E_FAIL, m') else add_parents rec incr m' ps)
      else Some (E_FAIL, m))"

primrec add_structure :: "nat \<Rightarrow> nat \<Rightarrow> 'p Mesh \<Rightarrow> addr \<Rightarrow> (HRESULT \<times> 'p Mesh) option" where
  "add_structure 0 incr m obj = None"
| "add_structure (Suc fuel) incr m obj =
     (let m1 = m\<lparr>isDirty := True\<rparr> in
      case add_parents (add_structure fuel incr) incr m1 (parents (heap m1 obj)) of
        None \<Rightarrow> None
      | Some (r, m2) \<Rightarrow>
          if r \<noteq> S_OK then Some (E_FAIL, m2)
          else
            let (r', invn, av, sol, h) =
                  Mesh_addObj incr (this m2) (structures m2) (structureIdsAvail m2) (Some obj)
                    (solver m2) (heap m2);
                m3 = m2\<lparr>structures := invn, structureIdsAvail := av, solver := sol, heap := h\<rparr>
            in if r' \<noteq> S_OK then Some (E_FAIL, m3) else Some (S_OK, m3))"

subsection \<open>Removing objects\<close>

text \<open>
  \<^verbatim>\<open>Mesh::removeObj\<close>. \<open>removeObj_own\<close> is the body up to the loop over the children: the
  stored check, the branch on the type with its bounds check (\<^verbatim>\<open>TF_MESH_OBJINVCHECK\<close>),
  the Destroy event and the reset of identifier and back-reference. The second component
  tells whether the call goes on to its children. The identifier is not negative where it
  is used as an index, the stored check having passed.
\<close>

definition unstore :: "'p Mesh \<Rightarrow> addr \<Rightarrow> 'p Mesh" where
  "unstore m p =
     (let ev = \<lparr>type = Destroy, objIDs = [objId (heap m p)], objTypes = [objType (heap m p)],
                name = []\<rparr>
      in m\<lparr>solver := solver_log (solver m) ev,
           heap := (heap m)(p := (heap m p)\<lparr>objId := - 1, mesh := None\<rparr>)\<rparr>)"

definition removeObj_own :: "'p Mesh \<Rightarrow> addr option \<Rightarrow> HRESULT \<times> 'p Mesh" where
  "removeObj_own m obj =
     (let m1 = m\<lparr>isDirty := True\<rparr> in
      if Mesh_checkStoredObj (heap m1) obj (this m1) \<noteq> S_OK then (E_FAIL, m1)
      else
        (case obj of
           None \<Rightarrow> (E_FAIL, m1)
         | Some p \<Rightarrow>
             let i = nat (objId (heap m1 p)) in
             if check (heap m1) p VERTEX then
               if i \<ge> length (vertices m1) then (E_FAIL, m1)
               else (S_OK, unstore (m1\<lparr>vertices := (vertices m1)[i := None],
                                       vertexIdsAvail := insert i (vertexIdsAvail m1)\<rparr>) p)
             else if check (heap m1) p SURFACE then
               if i \<ge> length (surfaces m1) then (E_FAIL, m1)
               else (S_OK, unstore (m1\<lparr>surfaces := (surfaces m1)[i := None],
                                       surfaceIdsAvail := insert i (surfaceIdsAvail m1)\<rparr>) p)
             else if check (heap m1) p BODY then
               if i \<ge> length (bodies m1) then (E_FAIL, m1)
               else (S_OK, unstore (m1\<lparr>bodies := (bodies m1)[i := None],
                                       bodyIdsAvail := insert i (bodyIdsAvail m1)\<rparr>) p)
             else if check (heap m1) p STRUCTURE then
               if i \<ge> length (structures m1) then (E_FAIL, m1)
               else (S_OK, unstore (m1\<lparr>structures := (structures m1)[i := None],
                                       structureIdsAvail := insert i (structureIdsAvail m1)\<rparr>) p)
             else (E_FAIL, m1)))"

text \<open>
  The loop over \<^verbatim>\<open>obj->children()\<close>, with the recursive call as a parameter, and the
  recursion itself, counted down from \<open>fuel\<close> (\<open>None\<close>: out of fuel).
\<close>

fun remove_children ::
  "('p Mesh \<Rightarrow> addr option \<Rightarrow> (HRESULT \<times> 'p Mesh) option) \<Rightarrow> 'p Mesh \<Rightarrow> addr list
   \<Rightarrow> (HRESULT \<times> 'p Mesh) option" where
  "remove_children rec m [] = Some (S_OK, m)"
| "remove_children rec m (c # cs) =
     (case rec m (Some c) of
        None \<Rightarrow> None
      | Some (r, m') \<Rightarrow> if r \<noteq> S_OK then Some (E_FAIL, m') else remove_children rec m' cs)"

primrec removeObj :: "nat \<Rightarrow> 'p Mesh \<Rightarrow> addr option \<Rightarrow> (HRESULT \<times> 'p Mesh) option" where
  "removeObj 0 m obj = None"
| "removeObj (Suc fuel) m obj =
     (case removeObj_own m obj of
        (r, m1) \<Rightarrow>
          if r \<noteq> S_OK then Some (E_FAIL, m1)
          else
            (case obj of
               None \<Rightarrow> Some (E_FAIL, m1)
             | Some p \<Rightarrow> remove_children (removeObj fuel) m1 (children (heap m1 p))))"

subsection \<open>Lookup\<close>

text \<open>
  Modelled from the spec: \<^verbatim>\<open>ParticleHandle::relativePosition\<close> is missing. The particle
  backend answers a relative-position query; it is the difference of the two positions.
\<close>

definition relativePosition :: "FVector3 MeshObj \<Rightarrow> FVector3 \<Rightarrow> FVector3" where
  "relativePosition v pos = vsub pos (position v)"

text \<open>
  \<^verbatim>\<open>Mesh::findVertex\<close> calls \<^verbatim>\<open>v->particle()\<close> on every slot it visits; on a null slot that
  is a null dereference, the \<open>Inl\<close> branch.
\<close>

datatype fault = NullDereference

fun findVertex_loop :: "FVector3 store \<Rightarrow> addr option list \<Rightarrow> FVector3 \<Rightarrow> real \<Rightarrow> fault + addr option" where
  "findVertex_loop h [] pos tol = Inr None"
| "findVertex_loop h (None # vs) pos tol = Inl NullDereference"
| "findVertex_loop h (Some v # vs) pos tol =
     (if vlength (relativePosition (h v) pos) \<le> tol then Inr (Some v)
      else findVertex_loop h vs pos tol)"

definition findVertex :: "FVector3 Mesh \<Rightarrow> FVector3 \<Rightarrow> real \<Rightarrow> fault + addr option" where
  "findVertex m pos tol = findVertex_loop (heap m) (vertices m) pos tol"

text \<open>\<^verbatim>\<open>TF_MESH_GETPART\<close> and the four getters.\<close>

definition TF_MESH_GETPART :: "nat \<Rightarrow> addr option list \<Rightarrow> addr option" where
  "TF_MESH_GETPART idx invn = (if idx \<ge> length invn then None else invn ! idx)"

definition getVertex :: "'p Mesh \<Rightarrow> nat \<Rightarrow> addr option" where
  "getVertex m idx = TF_MESH_GETPART idx (vertices m)"

definition getSurface :: "'p Mesh \<Rightarrow> nat \<Rightarrow> addr option" where
  "getSurface m idx = TF_MESH_GETPART idx (surfaces m)"

definition getBody :: "'p Mesh \<Rightarrow> nat \<Rightarrow> addr option" where
  "getBody m idx = TF_MESH_GETPART idx (bodies m)"

definition getStructure :: "'p Mesh \<Rightarrow> nat \<Rightarrow> addr option" where
  "getStructure m idx = TF_MESH_GETPART idx (structures m)"

section \<open>Relations between objects\<close>

text \<open>
  The classes of the mesh objects are not in the sources, so the member functions the
  mesh calls on them are modelled from what the spec says of the data: every object has
  ordered sequences of parent and child references, a Vertex has a position, and a
  Surface has a cyclically ordered boundary.
\<close>

text \<open>
  Modelled from the spec: \<^verbatim>\<open>MeshObj::addChild\<close> is missing. It appends the reference to
  the sequence of child references.
\<close>

definition addChild :: "'p store \<Rightarrow> addr \<Rightarrow> addr \<Rightarrow> HRESULT \<times> 'p store" where
  "addChild h p c = (S_OK, h(p := (h p)\<lparr>children := children (h p) @ [c]\<rparr>))"

text \<open>
  Modelled from the spec: \<^verbatim>\<open>MeshObj::removeChild\<close> is missing. It deletes the first
  occurrence of the reference from the sequence of child references and fails when
  there is none.
\<close>

definition removeChild :: "'p store \<Rightarrow> addr \<Rightarrow> addr \<Rightarrow> HRESULT \<times> 'p store" where
  "removeChild h p c =
     (if c \<in> set (children (h p))
      then (S_OK, h(p := (h p)\<lparr>children := remove1 c (children (h p))\<rparr>))
      else (E_FAIL, h))"

text \<open>
  Modelled from the spec: \<^verbatim>\<open>MeshObj::removeParent\<close> is missing. It deletes the first
  occurrence of the reference from the sequence of parent references and fails when
  there is none.
\<close>

definition removeParent :: "'p store \<Rightarrow> addr \<Rightarrow> addr \<Rightarrow> HRESULT \<times> 'p store" where
  "removeParent h c p =
     (if p \<in> set (parents (h c))
      then (S_OK, h(c := (h c)\<lparr>parents := remove1 p (parents (h c))\<rparr>))
      else (E_FAIL, h))"

text \<open>
  Modelled from the spec: \<^verbatim>\<open>Vertex::getPosition\<close> is missing. It reads the position of
  the particle of the vertex.
\<close>

definition getPosition :: "'p store \<Rightarrow> addr \<Rightarrow> 'p" where
  "getPosition h v = position (h v)"

text \<open>
  Modelled from the spec: \<^verbatim>\<open>Vertex::setPosition\<close> is missing. It writes the position of
  the particle of the vertex and succeeds.
\<close>

definition setPosition :: "'p store \<Rightarrow> addr \<Rightarrow> 'p \<Rightarrow> HRESULT \<times> 'p store" where
  "setPosition h v pos = (S_OK, h(v := (h v)\<lparr>position := pos\<rparr>))"

text \<open>
  Modelled from the spec: \<^verbatim>\<open>Surface::neighborVertices\<close> is missing. The neighbours of a
  vertex on a Surface are the next and the previous vertex of the cyclic boundary, at the
  first index that holds the vertex; there are none when the vertex is not on it.
\<close>

definition Surface_neighborVertices :: "'p store \<Rightarrow> addr \<Rightarrow> addr \<Rightarrow> (addr \<times> addr) option" where
  "Surface_neighborVertices h s v =
     (let vs = parents (h s); n = length vs in
      case List.find (\<lambda>i. vs ! i = v) [0 ..< n] of
        None \<Rightarrow> None
      | Some i \<Rightarrow> Some (vs ! (if i + 1 = n then 0 else i + 1), vs ! (if i = 0 then n - 1 else i - 1)))"

text \<open>
  Modelled from the spec: \<^verbatim>\<open>Vertex::neighborVertices\<close> is missing. The neighbours of a
  vertex are its neighbours on each of its Surfaces, each listed once.
\<close>

fun Vertex_neighborVertices_loop :: "'p store \<Rightarrow> addr \<Rightarrow> addr list \<Rightarrow> addr list \<Rightarrow> addr list" where
  "Vertex_neighborVertices_loop h v [] res = res"
| "Vertex_neighborVertices_loop h v (s # ss) res =
     (case Surface_neighborVertices h s v of
        None \<Rightarrow> Vertex_neighborVertices_loop h v ss res
      | Some (a, b) \<Rightarrow>
          let r1 = (if a \<in> set res then res else res @ [a]);
              r2 = (if b \<in> set r1 then r1 else r1 @ [b])
          in Vertex_neighborVertices_loop h v ss r2)"

definition Vertex_neighborVertices :: "'p store \<Rightarrow> addr \<Rightarrow> addr list" where
  "Vertex_neighborVertices h v = Vertex_neighborVertices_loop h v (children (h v)) []"

text \<open>
  Modelled from the spec: \<^verbatim>\<open>Vertex::sharedSurfaces\<close> is missing. The shared Surfaces of
  two vertices are the Surfaces of the first that are also Surfaces of the second, in
  the order of the first.
\<close>

definition sharedSurfaces :: "'p store \<Rightarrow> addr \<Rightarrow> addr \<Rightarrow> addr list" where
  "sharedSurfaces h v other = filter (\<lambda>s. s \<in> set (children (h other))) (children (h v))"

text \<open>
  Modelled from the spec: the particle type of the mesh and the constructor of
  \<^verbatim>\<open>Vertex\<close> are missing. A vertex-creating edit makes a particle at the given position
  through the particle backend and wraps it in a new Vertex. The new Vertex is
  unregistered, unrelated and sound; it takes the next free address.
\<close>

definition newVertex :: "'p \<Rightarrow> 'p MeshObj" where
  "newVertex pos =
     \<lparr>objId = - 1, mesh = None, objType = VERTEX, parents = [], children = [], valid = True,
      position = pos, mass = 1, normal = (0, 0, 0), centroid = (0, 0, 0), area = 0,
      b1 = None, b2 = None\<rparr>"

definition allocVertex :: "'p Mesh \<Rightarrow> 'p \<Rightarrow> addr \<times> 'p Mesh" where
  "allocVertex m pos = (brk m, m\<lparr>heap := (heap m)(brk m := newVertex pos), brk := Suc (brk m)\<rparr>)"

section \<open>Editing operations\<close>

text \<open>
  After an edit the code calls \<^verbatim>\<open>positionChanged\<close> and \<^verbatim>\<open>log\<close> when a solver is attached;
  \<open>notify\<close> is the variant that gives up when \<^verbatim>\<open>positionChanged\<close> fails.
\<close>

definition notify :: "'p Mesh \<Rightarrow> MeshLogEvent \<Rightarrow> HRESULT \<times> 'p Mesh" where
  "notify m ev =
     (case solver m of
        None \<Rightarrow> (S_OK, m)
      | Some sol \<Rightarrow>
          if positionChangedStatus sol \<noteq> S_OK then (E_FAIL, m)
          else (S_OK, m\<lparr>solver := solver_log (solver m) ev\<rparr>))"

definition logEdit :: "'p Mesh \<Rightarrow> addr \<Rightarrow> addr \<Rightarrow> string \<Rightarrow> MeshLogEvent" where
  "logEdit m a b tag =
     \<lparr>type = Create, objIDs = [objId (heap m a), objId (heap m b)],
      objTypes = [objType (heap m a), objType (heap m b)], name = tag\<rparr>"

subsection \<open>insert\<close>

text \<open>
  \<^verbatim>\<open>Mesh::insert\<close>. On every Surface of \<open>v1\<close> the inner loop looks for the first index
  whose vertex and cyclic successor are \<open>v1\<close> and \<open>v2\<close> in either order, and inserts
  after it (at the front when it is the last index).
\<close>

definition insert_match :: "addr list \<Rightarrow> addr \<Rightarrow> addr \<Rightarrow> nat \<Rightarrow> bool" where
  "insert_match vs v1 v2 i =
     (let nidx = (if i + 1 \<ge> length vs then i + 1 - length vs else i + 1);
          vn = vs ! nidx
      in (vs ! i = v1 \<and> vn = v2) \<or> (vs ! i = v2 \<and> vn = v1))"

fun insert_loop :: "'p store \<Rightarrow> addr \<Rightarrow> addr \<Rightarrow> addr \<Rightarrow> addr list \<Rightarrow> 'p store" where
  "insert_loop h toInsert v1 v2 [] = h"
| "insert_loop h toInsert v1 v2 (s1 # ss) =
     (let vs = parents (h s1) in
      case List.find (insert_match vs v1 v2) [0 ..< length vs] of
        None \<Rightarrow> insert_loop h toInsert v1 v2 ss
      | Some i \<Rightarrow>
          let k = (if i + 1 = length vs then 0 else i + 1);
              h1 = h(s1 := (h s1)\<lparr>parents := take k vs @ [toInsert] @ drop k vs\<rparr>);
              h2 = snd (addChild h1 toInsert s1)
          in insert_loop h2 toInsert v1 v2 ss)"

definition Mesh_insert :: "nat \<Rightarrow> 'p Mesh \<Rightarrow> addr \<Rightarrow> addr \<Rightarrow> addr \<Rightarrow> HRESULT \<times> 'p Mesh" where
  "Mesh_insert incr m toInsert v1 v2 =
     (let m1 = m\<lparr>heap := insert_loop (heap m) toInsert v1 v2 (children (heap m v1))\<rparr> in
      case add_vertex incr m1 (Some toInsert) of
        (r, m2) \<Rightarrow>
          if r \<noteq> S_OK then (E_FAIL, m2)
          else notify m2 (logEdit m2 v1 v2 ''insert''))"

subsection \<open>replace(newVertex, targetSurface)\<close>

text \<open>
  \<^verbatim>\<open>Mesh::replace(Vertex*, Surface*)\<close>. \<open>connectedSurfaces_loop\<close> is the gathering loop
  with its test as written: a Surface is pushed when it differs from the replaced one and
  \<^verbatim>\<open>std::find\<close> does find it among those gathered so far.
  \<^verbatim>\<open>Surface::contiguousEdgeLabels\<close> is not in the sources; it is the parameter \<open>labels\<close>.
\<close>

fun connectedSurfaces_loop :: "addr \<Rightarrow> addr list \<Rightarrow> addr list \<Rightarrow> addr list" where
  "connectedSurfaces_loop toReplace cs [] = cs"
| "connectedSurfaces_loop toReplace cs (s # ss) =
     connectedSurfaces_loop toReplace (if s \<noteq> toReplace \<and> s \<in> set cs then cs @ [s] else cs) ss"

definition connectedSurfaces :: "'p store \<Rightarrow> addr \<Rightarrow> addr list" where
  "connectedSurfaces h toReplace =
     connectedSurfaces_loop toReplace []
       (concat (map (\<lambda>v. children (h v)) (parents (h toReplace))))"

text \<open>The loop over the edge labels of one Surface; \<open>None\<close> is the label above 1.\<close>

fun collect_toRemove :: "addr list \<Rightarrow> nat list \<Rightarrow> nat list \<Rightarrow> addr list \<Rightarrow> addr list option" where
  "collect_toRemove vs labs [] acc = Some acc"
| "collect_toRemove vs labs (i # is) acc =
     (let lab = labs ! i in
      if lab > 0 then
        (if lab > 1 then None else collect_toRemove vs labs is (acc @ [vs ! i]))
      else collect_toRemove vs labs is acc)"

fun detach_all :: "'p store \<Rightarrow> addr \<Rightarrow> addr list \<Rightarrow> 'p store" where
  "detach_all h s [] = h"
| "detach_all h s (v # vs) = detach_all (snd (removeChild (snd (removeParent h s v)) v s)) s vs"

text \<open>
  The loop over the connected Surfaces. The outer \<open>None\<close> is \<^verbatim>\<open>toRemove[0]\<close> read from an
  empty vector; otherwise the status, the store and \<^verbatim>\<open>totalToRemove\<close>.
\<close>

fun replace_loop ::
  "('p store \<Rightarrow> addr \<Rightarrow> addr \<Rightarrow> nat list) \<Rightarrow> 'p store \<Rightarrow> addr \<Rightarrow> addr \<Rightarrow> addr list \<Rightarrow> addr list
   \<Rightarrow> (HRESULT \<times> 'p store \<times> addr list) option" where
  "replace_loop labels h toInsert toReplace [] totalToRemove = Some (S_OK, h, totalToRemove)"
| "replace_loop labels h toInsert toReplace (s # ss) totalToRemove =
     (let edgeLabels = labels h s toReplace in
      case collect_toRemove (parents (h s)) edgeLabels [0 ..< length edgeLabels] [] of
        None \<Rightarrow> Some (E_FAIL, h, totalToRemove)
      | Some [] \<Rightarrow> None
      | Some (r0 # rs) \<Rightarrow>
          let vs = parents (h s);
              k = length (takeWhile (\<lambda>v. v \<noteq> r0) vs);
              h1 = h(s := (h s)\<lparr>parents := take k vs @ [toInsert] @ drop k vs\<rparr>);
              h2 = snd (addChild h1 toInsert s);
              h3 = detach_all h2 s (r0 # rs)
          in replace_loop labels h3 toInsert toReplace ss (totalToRemove @ r0 # rs))"

definition replace_surface ::
  "nat \<Rightarrow> nat \<Rightarrow> ('p store \<Rightarrow> addr \<Rightarrow> addr \<Rightarrow> nat list) \<Rightarrow> 'p Mesh \<Rightarrow> addr \<Rightarrow> addr
   \<Rightarrow> (HRESULT \<times> 'p Mesh) option" where
  "replace_surface fuel incr labels m toInsert toReplace =
     (case replace_loop labels (heap m) toInsert toReplace (connectedSurfaces (heap m) toReplace) [] of
        None \<Rightarrow> None
      | Some (r, h1, totalToRemove) \<Rightarrow>
          if r \<noteq> S_OK then Some (E_FAIL, m\<lparr>heap := h1\<rparr>)
          else
            (case removeObj fuel (m\<lparr>heap := h1\<rparr>) (Some toReplace) of
               None \<Rightarrow> None
             | Some (r1, m1) \<Rightarrow>
                 if r1 \<noteq> S_OK then Some (E_FAIL, m1)
                 else
                   (case remove_children (removeObj fuel) m1 totalToRemove of
                      None \<Rightarrow> None
                    | Some (r2, m2) \<Rightarrow>
                        if r2 \<noteq> S_OK then Some (E_FAIL, m2)
                        else
                          (case add_vertex incr m2 (Some toInsert) of
                             (r3, m3) \<Rightarrow>
                               if r3 \<noteq> S_OK then Some (E_FAIL, m3)
                               else Some (notify m3 (logEdit m3 toInsert toReplace ''replace''))))))"

subsection \<open>merge(keepVertex, removeVertex, lengthCf)\<close>

text \<open>
  \<^verbatim>\<open>Mesh::merge(Vertex*, Vertex*, const float&)\<close>. \<open>merge_scan\<close> is the loop over the
  boundary of the first shared Surface: at the first index that holds one of the two
  vertices it compares the other one with the cyclic successor, fails or breaks. The new
  position is computed in the float arithmetic of \<^verbatim>\<open>FVector3\<close>, the argument \<open>ar\<close>;
  the coefficient is a scalar of that arithmetic.
\<close>

fun merge_scan :: "addr list \<Rightarrow> nat list \<Rightarrow> addr \<Rightarrow> addr \<Rightarrow> HRESULT" where
  "merge_scan vs [] toKeep toRemove = S_OK"
| "merge_scan vs (i # is) toKeep toRemove =
     (let v = vs ! i;
          vt = (if v = toKeep then Some toRemove else if v = toRemove then Some toKeep else None)
      in case vt of
           Some t \<Rightarrow>
             if t \<noteq> vs ! (if i + 1 \<ge> length vs then i + 1 - length vs else i + 1) then E_FAIL
             else S_OK
         | None \<Rightarrow> merge_scan vs is toKeep toRemove)"

fun disconnect_children :: "'p store \<Rightarrow> addr \<Rightarrow> addr list \<Rightarrow> HRESULT \<times> 'p store" where
  "disconnect_children h toRemove [] = (S_OK, h)"
| "disconnect_children h toRemove (c # cs) =
     (case removeChild h toRemove c of
        (r1, h1) \<Rightarrow>
          if r1 \<noteq> S_OK then (E_FAIL, h1)
          else
            (case removeParent h1 c toRemove of
               (r2, h2) \<Rightarrow>
                 if r2 \<noteq> S_OK then (E_FAIL, h2) else disconnect_children h2 toRemove cs))"

definition merge_vertices ::
  "nat \<Rightarrow> ('p, 'c) arithmetic \<Rightarrow> 'p Mesh \<Rightarrow> addr \<Rightarrow> addr \<Rightarrow> 'c \<Rightarrow> (HRESULT \<times> 'p Mesh) option" where
  "merge_vertices fuel ar m toKeep toRemove lenCf =
     (case sharedSurfaces (heap m) toKeep toRemove of
        [] \<Rightarrow> Some (E_FAIL, m)
      | s # _ \<Rightarrow>
          let vs = parents (heap m s) in
          if merge_scan vs [0 ..< length vs] toKeep toRemove \<noteq> S_OK then Some (E_FAIL, m)
          else
            (case disconnect_children (heap m) toRemove (children (heap m toRemove)) of
               (r1, h1) \<Rightarrow>
                 if r1 \<noteq> S_OK then Some (E_FAIL, m\<lparr>heap := h1\<rparr>)
                 else
                   (case removeObj fuel (m\<lparr>heap := h1\<rparr>) (Some toRemove) of
                      None \<Rightarrow> None
                    | Some (r2, m2) \<Rightarrow>
                        if r2 \<noteq> S_OK then Some (E_FAIL, m2)
                        else
                          let posToKeep = getPosition (heap m2) toKeep;
                              newPos = vplus ar posToKeep
                                         (vtimes ar
                                            (vminus ar (getPosition (heap m2) toRemove) posToKeep)
                                            lenCf)
                          in (case setPosition (heap m2) toKeep newPos of
                                (r3, h3) \<Rightarrow>
                                  if r3 \<noteq> S_OK then Some (E_FAIL, m2\<lparr>heap := h3\<rparr>)
                                  else
                                    let m3 = m2\<lparr>heap := h3\<rparr>
                                    in Some (notify m3 (logEdit m3 toKeep toRemove ''merge''))))))"

subsection \<open>replace(surfaceType, targetVertex, lengthCoefficients)\<close>

text \<open>
  \<^verbatim>\<open>Mesh::replace(SurfaceType*, Vertex*, std::vector<float>)\<close>. The call operator of
  \<^verbatim>\<open>SurfaceType\<close>, which constructs a Surface from a vertex list, is not in the sources; it
  is the parameter \<open>stype\<close> and may answer with the null pointer. The function returns a
  Surface pointer, null for a rejected call. The outer \<open>None\<close> is a call without result:
  \<^verbatim>\<open>removeObj\<close> out of fuel, or \<^verbatim>\<open>add\<close> reading the vertices of a null Surface.
\<close>

type_synonym SurfaceType = "FVector3 Mesh \<Rightarrow> addr list \<Rightarrow> addr option \<times> FVector3 Mesh"

fun fan_loop ::
  "nat \<Rightarrow> FVector3 Mesh \<Rightarrow> addr \<Rightarrow> FVector3 \<Rightarrow> (addr \<times> real) list \<Rightarrow> addr list \<Rightarrow> addr list option \<times> FVector3 Mesh" where
  "fan_loop incr m toReplace pos0 [] insertedVertices = (Some insertedVertices, m)"
| "fan_loop incr m toReplace pos0 ((v, cf) # rest) insertedVertices =
     (if cf \<le> 0 \<or> cf \<ge> 1 then (None, m)
      else
        let pos1 = getPosition (heap m) v;
            pos = vadd pos0 (vscale (vsub pos1 pos0) cf);
            (vInserted, m1) = allocVertex m pos
        in case Mesh_insert incr m1 vInserted toReplace v of
             (r, m2) \<Rightarrow>
               if r \<noteq> S_OK then (None, m2)
               else fan_loop incr m2 toReplace pos0 rest (insertedVertices @ [vInserted]))"

fun disconnect_surfaces :: "'p store \<Rightarrow> addr \<Rightarrow> addr list \<Rightarrow> 'p store" where
  "disconnect_surfaces h toReplace [] = h"
| "disconnect_surfaces h toReplace (s # ss) =
     disconnect_surfaces (snd (removeChild (snd (removeParent h s toReplace)) toReplace s)) toReplace ss"

definition replace_vertex ::
  "nat \<Rightarrow> nat \<Rightarrow> SurfaceType \<Rightarrow> FVector3 Mesh \<Rightarrow> addr \<Rightarrow> real list \<Rightarrow> (addr option \<times> FVector3 Mesh) option" where
  "replace_vertex fuel incr stype m toReplace lenCfs =
     (let neighbors = Vertex_neighborVertices (heap m) toReplace in
      if length lenCfs \<noteq> length neighbors then Some (None, m)
      else if \<exists>cf \<in> set lenCfs. cf \<le> 0 \<or> cf \<ge> 1 then Some (None, m)
      else
        let pos0 = getPosition (heap m) toReplace in
        case fan_loop incr m toReplace pos0 (zip neighbors lenCfs) [] of
          (None, m1) \<Rightarrow> Some (None, m1)
        | (Some insertedVertices, m1) \<Rightarrow>
            let m2 = m1\<lparr>heap := disconnect_surfaces (heap m1) toReplace
                                   (children (heap m1 toReplace))\<rparr>
            in case stype m2 insertedVertices of
                 (inserted, m3) \<Rightarrow>
                   (case removeObj fuel m3 (Some toReplace) of
                      None \<Rightarrow> None
                    | Some (r, m4) \<Rightarrow>
                        (case inserted of
                           None \<Rightarrow> None
                         | Some ins \<Rightarrow>
                             let m5 = snd (add_surface incr m4 ins);
                                 m6 = m5\<lparr>solver := solver_log (solver m5)
                                                      (logEdit m5 ins toReplace ''replace'')\<rparr>
                             in Some (Some ins, m6))))"

subsection \<open>extrude(baseSurface, bodyType, normalLength)\<close>

text \<open>
  \<^verbatim>\<open>Mesh_surfaceOutwardNormal\<close> returns a status and writes the normal through its last
  argument; in the branch of a Surface with two bodies it returns \<^verbatim>\<open>NULL\<close> and leaves the
  normal as it was.
\<close>

definition Mesh_surfaceOutwardNormal ::
  "'p store \<Rightarrow> addr \<Rightarrow> addr option \<Rightarrow> addr option \<Rightarrow> FVector3 \<Rightarrow> HRESULT \<times> FVector3" where
  "Mesh_surfaceOutwardNormal h s bd1 bd2 onorm =
     (if bd1 \<noteq> None \<and> bd2 \<noteq> None then (NULL, onorm)
      else if bd1 \<noteq> None then (S_OK, normal (h s))
      else if bd2 \<noteq> None then (S_OK, vneg (normal (h s)))
      else (S_OK, normal (h s)))"

text \<open>
  \<^verbatim>\<open>Mesh::extrude(Surface*, BodyType*, const float&)\<close>. \<^verbatim>\<open>Surface::refreshBodies\<close> and the
  call operators of \<^verbatim>\<open>SurfaceType\<close> and \<^verbatim>\<open>BodyType\<close> are not in the sources; they are
  the parameters \<open>refreshBodies\<close>, \<open>stype\<close> and \<open>btype\<close>. The local \<^verbatim>\<open>normal\<close> starts as
  the zero vector of the default constructor. The function returns a Body pointer, null
  for a failed call.
\<close>

type_synonym BodyType = "FVector3 Mesh \<Rightarrow> addr option list \<Rightarrow> addr option \<times> FVector3 Mesh"

fun alloc_ring :: "'p Mesh \<Rightarrow> 'p list \<Rightarrow> addr list \<Rightarrow> addr list \<times> 'p Mesh" where
  "alloc_ring m [] newVertices = (newVertices, m)"
| "alloc_ring m (pos # ps) newVertices =
     (case allocVertex m pos of (v, m1) \<Rightarrow> alloc_ring m1 ps (newVertices @ [v]))"

fun lateral_loop ::
  "SurfaceType \<Rightarrow> FVector3 Mesh \<Rightarrow> addr list \<Rightarrow> addr list \<Rightarrow> nat list \<Rightarrow> addr list \<Rightarrow> addr list option \<times> FVector3 Mesh" where
  "lateral_loop stype m bvs nvs [] newSurfaces = (Some newSurfaces, m)"
| "lateral_loop stype m bvs nvs (i # is) newSurfaces =
     (let j = (if i + 1 \<ge> length bvs then i + 1 - length bvs else i + 1) in
      case stype m [bvs ! i, bvs ! j, nvs ! j, nvs ! i] of
        (None, m1) \<Rightarrow> (None, m1)
      | (Some s, m1) \<Rightarrow> lateral_loop stype m1 bvs nvs is (newSurfaces @ [s]))"

definition extrude_build ::
  "nat \<Rightarrow> SurfaceType \<Rightarrow> BodyType \<Rightarrow> FVector3 Mesh \<Rightarrow> addr \<Rightarrow> FVector3 \<Rightarrow> real \<Rightarrow> addr option \<times> FVector3 Mesh" where
  "extrude_build incr stype btype m base nrm normLen =
     (let bvs = parents (heap m base);
          disp = vscale nrm normLen;
          (newVertices, m1) =
            alloc_ring m (map (\<lambda>v. vadd (getPosition (heap m) v) disp) bvs) []
      in case lateral_loop stype m1 bvs newVertices [0 ..< length bvs] [] of
           (None, m2) \<Rightarrow> (None, m2)
         | (Some newSurfaces, m2) \<Rightarrow>
             (case stype m2 newVertices of
                (cap, m3) \<Rightarrow>
                  (case btype m3 (map Some newSurfaces @ [Some base] @ [cap]) of
                     (None, m4) \<Rightarrow> (None, m4)
                   | (Some b, m4) \<Rightarrow>
                       let m5 = snd (add_body incr m4 b);
                           m6 = m5\<lparr>solver := solver_log (solver m5)
                                                (logEdit m5 base b ''extrude'')\<rparr>
                       in (Some b, m6))))"

definition extrude_body ::
  "nat \<Rightarrow> (FVector3 store \<Rightarrow> addr \<Rightarrow> FVector3 store) \<Rightarrow> SurfaceType \<Rightarrow> BodyType \<Rightarrow> FVector3 Mesh \<Rightarrow> addr \<Rightarrow> real
   \<Rightarrow> addr option \<times> FVector3 Mesh" where
  "extrude_body incr refreshBodies stype btype m base normLen =
     (let m0 = m\<lparr>heap := refreshBodies (heap m) base\<rparr> in
      case Mesh_surfaceOutwardNormal (heap m0) base (b1 (heap m0 base)) (b2 (heap m0 base)) (0, 0, 0) of
        (r, nrm) \<Rightarrow>
          if r \<noteq> S_OK then (None, m0)
          else extrude_build incr stype btype m0 base nrm normLen)"

section \<open>Constraint actors\<close>

text \<open>
  An energy function receives the running total by reference and returns a status; the
  model returns the status and the total afterwards. A force function receives the
  vertex's accumulator of three components likewise. The parameters of the actors are
  \<open>lam\<close> and \<open>constr\<close>.
\<close>

subsection \<open>Surface-area constraint\<close>

definition SurfaceAreaConstraint_energy ::
  "real \<Rightarrow> real \<Rightarrow> 'p store \<Rightarrow> addr \<Rightarrow> addr \<Rightarrow> real \<Rightarrow> HRESULT \<times> real" where
  "SurfaceAreaConstraint_energy lam constr h source target e =
     (let darea = area (h source) - constr in (S_OK, lam * darea * darea))"

text \<open>
  Modelled from the spec: \<^verbatim>\<open>MeshObj::in\<close> is missing. A Surface is in a Body when the
  Body is one of the owning bodies of the Surface, which are its children.
\<close>

definition isIn :: "'p store \<Rightarrow> addr \<Rightarrow> addr \<Rightarrow> bool" where
  "isIn h s b = (b \<in> set (children (h s)))"

text \<open>
  The force. \<^verbatim>\<open>Surface::triangleNormal\<close> is not in the sources; it is the parameter
  \<open>triangleNormal\<close>. \<open>idxc\<close> is assigned in the loop where the vertex is met and is
  read after it; \<open>None\<close> is the read of the unassigned variable.
\<close>

fun vcross :: "FVector3 \<Rightarrow> FVector3 \<Rightarrow> FVector3" where
  "vcross (a1, a2, a3) (c1, c2, c3) = (a2 * c3 - a3 * c2, a3 * c1 - a1 * c3, a1 * c2 - a2 * c1)"

fun SurfaceArea_edges ::
  "(FVector3 store \<Rightarrow> addr \<Rightarrow> nat \<Rightarrow> FVector3) \<Rightarrow> FVector3 store \<Rightarrow> addr \<Rightarrow> addr \<Rightarrow> nat list \<Rightarrow> nat option \<times> FVector3
   \<Rightarrow> nat option \<times> FVector3" where
  "SurfaceArea_edges triangleNormal h s v [] acc = acc"
| "SurfaceArea_edges triangleNormal h s v (idx # idxs) (idxc, sftotal) =
     (let svertices = parents (h s);
          nxt = (if idx = length svertices - 1 then 0 else idx + 1)
      in SurfaceArea_edges triangleNormal h s v idxs
           (if svertices ! idx = v then Some idx else idxc,
            vadd sftotal
              (vcross (vnormalized (triangleNormal h s idx))
                 (vsub (getPosition h (svertices ! nxt)) (getPosition h (svertices ! idx))))))"

fun SurfaceArea_surfaces ::
  "(FVector3 store \<Rightarrow> addr \<Rightarrow> nat \<Rightarrow> FVector3) \<Rightarrow> FVector3 store \<Rightarrow> addr \<Rightarrow> addr \<Rightarrow> addr list \<Rightarrow> FVector3
   \<Rightarrow> FVector3 option" where
  "SurfaceArea_surfaces triangleNormal h b v [] ftotal = Some ftotal"
| "SurfaceArea_surfaces triangleNormal h b v (s # ss) ftotal =
     (if \<not> isIn h s b then SurfaceArea_surfaces triangleNormal h b v ss ftotal
      else
        let svertices = parents (h s);
            n = length svertices
        in case SurfaceArea_edges triangleNormal h s v [0 ..< n] (None, (0, 0, 0)) of
             (None, sf) \<Rightarrow> None
           | (Some idxc, sf) \<Rightarrow>
               let sf1 = vdiv sf (real n);
                   idxp = (if idxc = 0 then n - 1 else idxc - 1);
                   idxn = (if idxc = n - 1 then 0 else idxc + 1);
                   scentroid = centroid (h s);
                   sf2 = vadd sf1 (vcross (vnormalized (triangleNormal h s idxc))
                                     (vsub scentroid (getPosition h (svertices ! idxn))));
                   sf3 = vsub sf2 (vcross (vnormalized (triangleNormal h s idxp))
                                     (vsub scentroid (getPosition h (svertices ! idxp))))
               in SurfaceArea_surfaces triangleNormal h b v ss (vadd ftotal sf3))"

definition SurfaceAreaConstraint_force ::
  "real \<Rightarrow> real \<Rightarrow> (FVector3 store \<Rightarrow> addr \<Rightarrow> nat \<Rightarrow> FVector3) \<Rightarrow> FVector3 store \<Rightarrow> addr \<Rightarrow> addr \<Rightarrow> FVector3
   \<Rightarrow> (HRESULT \<times> FVector3) option" where
  "SurfaceAreaConstraint_force lam constr triangleNormal h source target f =
     (case SurfaceArea_surfaces triangleNormal h source target (children (h target)) (0, 0, 0) of
        None \<Rightarrow> None
      | Some ftotal \<Rightarrow>
          Some (S_OK, vadd f (vscale ftotal (lam * (constr - area (h source))))))"

subsection \<open>Convex-polygon constraint\<close>

text \<open>
  \<^verbatim>\<open>ConvexPolygonConstraint_acts\<close> returns whether the constraint acts and writes
  \<open>rel_c2ab\<close> through its last argument. \<^verbatim>\<open>isZero\<close> of the vector library compares the
  squared length with the library's epsilon, the parameter \<open>eps\<close>. \<open>None\<close> is the read
  through the null neighbours of a vertex that is not on the Surface. \<open>dt\<close> is the
  engine's time step.
\<close>

definition isZero :: "real \<Rightarrow> FVector3 \<Rightarrow> bool" where
  "isZero eps a = (\<bar>vdot a a\<bar> < eps)"

definition ConvexPolygonConstraint_acts ::
  "real \<Rightarrow> FVector3 store \<Rightarrow> addr \<Rightarrow> addr \<Rightarrow> FVector3 \<Rightarrow> (bool \<times> FVector3) option" where
  "ConvexPolygonConstraint_acts eps h vc s rel_c2ab =
     (if length (parents (h s)) \<le> 3 then Some (False, rel_c2ab)
      else
        case Surface_neighborVertices h s vc of
          None \<Rightarrow> None
        | Some (va, vb) \<Rightarrow>
            let posva = getPosition h va;
                posvb = getPosition h vb;
                posvc = getPosition h vc;
                numVerts = real (length (parents (h s)));
                cent_loo = vdiv (vsub (vscale (centroid (h s)) numVerts) posvc) (numVerts - 1);
                lineDir = vsub posvb posva
            in if isZero eps lineDir then Some (False, rel_c2ab)
               else
                 let lineDir = vnormalized lineDir;
                     rel = vsub (vadd posva (vscale lineDir (vdot (vsub posvc posva) lineDir))) posvc;
                     rel_cent2ab =
                       vsub (vadd posva (vscale lineDir (vdot (vsub cent_loo posva) lineDir))) cent_loo
                 in Some (vdot rel rel_cent2ab > 0, rel))"

definition ConvexPolygonConstraint_energy ::
  "real \<Rightarrow> real \<Rightarrow> real \<Rightarrow> FVector3 store \<Rightarrow> addr \<Rightarrow> addr \<Rightarrow> real \<Rightarrow> (HRESULT \<times> real) option" where
  "ConvexPolygonConstraint_energy eps dt lam h source target e =
     (case ConvexPolygonConstraint_acts eps h target source (0, 0, 0) of
        None \<Rightarrow> None
      | Some (acts, rel_c2ab) \<Rightarrow>
          Some (S_OK,
                if acts then e + mass (h target) / dt * lam / 2 * vdot rel_c2ab rel_c2ab else e))"

definition ConvexPolygonConstraint_force ::
  "real \<Rightarrow> real \<Rightarrow> real \<Rightarrow> FVector3 store \<Rightarrow> addr \<Rightarrow> addr \<Rightarrow> FVector3 \<Rightarrow> (HRESULT \<times> FVector3) option" where
  "ConvexPolygonConstraint_force eps dt lam h source target f =
     (case ConvexPolygonConstraint_acts eps h target source (0, 0, 0) of
        None \<Rightarrow> None
      | Some (acts, rel_c2ab) \<Rightarrow>
          Some (S_OK,
                if acts then vadd f (vscale (vdiv (vscale rel_c2ab (mass (h target))) dt) lam)
                else f))"

section \<open>Sequences of add and remove calls\<close>

text \<open>
  A call \<^verbatim>\<open>add(obj)\<close> is resolved by the static type of the pointer, which is the variant
  of the object; there is no overload for an object of no variant, and such a call has no
  result. \<open>run\<close> performs a sequence of calls, whatever status each returns.
\<close>

datatype MeshOp = Add addr | Remove "addr option"

definition apply_op :: "nat \<Rightarrow> nat \<Rightarrow> 'p Mesh \<Rightarrow> MeshOp \<Rightarrow> (HRESULT \<times> 'p Mesh) option" where
  "apply_op fuel incr m op =
     (case op of
        Add p \<Rightarrow>
          (case objType (heap m p) of
             VERTEX \<Rightarrow> Some (add_vertex incr m (Some p))
           | SURFACE \<Rightarrow> Some (add_surface incr m p)
           | BODY \<Rightarrow> Some (add_body incr m p)
           | STRUCTURE \<Rightarrow> add_structure fuel incr m p
           | NONE \<Rightarrow> None)
      | Remove obj \<Rightarrow> removeObj fuel m obj)"

fun run :: "nat \<Rightarrow> nat \<Rightarrow> 'p Mesh \<Rightarrow> MeshOp list \<Rightarrow> 'p Mesh option" where
  "run fuel incr m [] = Some m"
| "run fuel incr m (op # ops) =
     (case apply_op fuel incr m op of
        None \<Rightarrow> None
      | Some (r, m') \<Rightarrow> run fuel incr m' ops)"

section \<open>Invariants\<close>

text \<open>
  An object is live in a mesh when it passes the stored check of that mesh.
  \<open>inventory_ok\<close> relates one inventory, its available set and the store: the available
  identifiers are slot indices; a slot is null exactly when its index is available; an
  occupied slot holds an object of the inventory's variant whose identifier is the slot
  index and whose back-reference is this mesh; and every live object of the variant sits
  in the slot of its identifier.
\<close>

definition live :: "'p Mesh \<Rightarrow> addr \<Rightarrow> bool" where
  "live m p = (0 \<le> objId (heap m p) \<and> mesh (heap m p) = Some (this m))"

definition inventory_ok :: "'p store \<Rightarrow> addr \<Rightarrow> Type \<Rightarrow> addr option list \<Rightarrow> nat set \<Rightarrow> bool" where
  "inventory_ok h msh t invn avail =
     ((\<forall>i \<in> avail. i < length invn) \<and>
      (\<forall>i < length invn. (invn ! i = None) = (i \<in> avail)) \<and>
      (\<forall>i < length invn. \<forall>p. invn ! i = Some p \<longrightarrow>
          objId (h p) = int i \<and> mesh (h p) = Some msh \<and> objType (h p) = t) \<and>
      (\<forall>p. objType (h p) = t \<and> 0 \<le> objId (h p) \<and> mesh (h p) = Some msh \<longrightarrow>
          nat (objId (h p)) < length invn \<and> invn ! nat (objId (h p)) = Some p))"

definition mesh_ok :: "'p Mesh \<Rightarrow> bool" where
  "mesh_ok m =
     (inventory_ok (heap m) (this m) VERTEX (vertices m) (vertexIdsAvail m) \<and>
      inventory_ok (heap m) (this m) SURFACE (surfaces m) (surfaceIdsAvail m) \<and>
      inventory_ok (heap m) (this m) BODY (bodies m) (bodyIdsAvail m) \<and>
      inventory_ok (heap m) (this m) STRUCTURE (structures m) (structureIdsAvail m))"

text \<open>
  What the static types of the code guarantee about the store: the members of
  \<^verbatim>\<open>Surface::vertices\<close> are vertices and the members of \<^verbatim>\<open>Body::surfaces\<close> are Surfaces.
\<close>

definition typed :: "'p store \<Rightarrow> bool" where
  "typed h =
     (\<forall>p. (objType (h p) = SURFACE \<longrightarrow> (\<forall>v \<in> set (parents (h p)). objType (h v) = VERTEX)) \<and>
          (objType (h p) = BODY \<longrightarrow> (\<forall>s \<in> set (parents (h p)). objType (h s) = SURFACE)))"

text \<open>No two live objects of one variant share an identifier.\<close>

definition unique_ids :: "'p Mesh \<Rightarrow> bool" where
  "unique_ids m =
     (\<forall>p q. live m p \<and> live m q \<and> objType (heap m p) = objType (heap m q) \<and>
            objType (heap m p) \<noteq> NONE \<and> objId (heap m p) = objId (heap m q) \<longrightarrow> p = q)"

text \<open>The slots of the four inventories that hold a given object.\<close>

definition in_inventory :: "'p Mesh \<Rightarrow> addr \<Rightarrow> bool" where
  "in_inventory m p =
     (Some p \<in> set (vertices m) \<union> set (surfaces m) \<union> set (bodies m) \<union> set (structures m))"

definition null_slot :: "nat \<Rightarrow> 'p Mesh \<Rightarrow> bool" where
  "null_slot i m = (i < length (vertices m) \<and> vertices m ! i = None)"

text \<open>The number of occupied slots of the four inventories.\<close>

definition occupied :: "'p Mesh \<Rightarrow> nat" where
  "occupied m =
     length (filter (\<lambda>x. x \<noteq> None) (vertices m @ surfaces m @ bodies m @ structures m))"

text \<open>What no add and no remove changes: the mesh address, the variants and the parents.\<close>

definition frame :: "'p Mesh \<Rightarrow> addr \<times> (addr \<Rightarrow> Type) \<times> (addr \<Rightarrow> addr list)" where
  "frame m = (this m, (\<lambda>q. objType (heap m q)), (\<lambda>q. parents (heap m q)))"

section \<open>Example meshes\<close>

text \<open>
  An unregistered object of a variant, as a constructor leaves it, and the mesh before
  any call: empty inventories, clean, no solver, in a store of unregistered objects.
\<close>

definition unstored :: "Type \<Rightarrow> FVector3 MeshObj" where
  "unstored t =
     \<lparr>objId = - 1, mesh = None, objType = t, parents = [], children = [], valid = True,
      position = (0, 0, 0), mass = 1, normal = (0, 0, 1), centroid = (0, 0, 0), area = 0,
      b1 = None, b2 = None\<rparr>"

definition emptyMesh :: "FVector3 Mesh" where
  "emptyMesh =
     \<lparr>vertices = [], surfaces = [], bodies = [], structures = [],
      vertexIdsAvail = {}, surfaceIdsAvail = {}, bodyIdsAvail = {}, structureIdsAvail = {},
      isDirty = False, solver = None, this = 0, heap = (\<lambda>_. unstored NONE), brk = 1\<rparr>"

text \<open>
  A registered vertex and a registered Surface of mesh 0, and a mesh holding the
  quadrilateral 15 with the boundary 11, 12, 13, 14 at the corners of the unit square.
\<close>

definition storedVertex :: "int \<Rightarrow> FVector3 \<Rightarrow> addr list \<Rightarrow> FVector3 MeshObj" where
  "storedVertex i pos ss =
     (unstored VERTEX)\<lparr>objId := i, mesh := Some 0, position := pos, children := ss\<rparr>"

definition storedSurface :: "int \<Rightarrow> addr list \<Rightarrow> FVector3 MeshObj" where
  "storedSurface i vs = (unstored SURFACE)\<lparr>objId := i, mesh := Some 0, parents := vs\<rparr>"

definition quadMesh :: "FVector3 Mesh" where
  "quadMesh =
     emptyMesh\<lparr>vertices := [Some 11, Some 12, Some 13, Some 14], surfaces := [Some 15],
       heap := (\<lambda>_. unstored NONE)
         (11 := storedVertex 0 (0, 0, 0) [15], 12 := storedVertex 1 (1, 0, 0) [15],
          13 := storedVertex 2 (1, 1, 0) [15], 14 := storedVertex 3 (0, 1, 0) [15],
          15 := storedSurface 0 [11, 12, 13, 14]),
       brk := 16\<rparr>"

text \<open>
  A mesh with the triangle 16 on the vertices 11, 12, 13 and the quadrilateral 17 on 13, 12, 14, 15,
  which share the edge between 12 and 13; 18 is a new vertex, not yet registered.
\<close>

definition twoSurfaceMesh :: "FVector3 Mesh" where
  "twoSurfaceMesh =
     emptyMesh\<lparr>vertices := [Some 11, Some 12, Some 13, Some 14, Some 15],
       surfaces := [Some 16, Some 17],
       heap := (\<lambda>_. unstored NONE)
         (11 := storedVertex 0 (0, 0, 0) [16], 12 := storedVertex 1 (1, 0, 0) [16, 17],
          13 := storedVertex 2 (0, 1, 0) [16, 17], 14 := storedVertex 3 (2, 0, 0) [17],
          15 := storedVertex 4 (2, 1, 0) [17],
          16 := storedSurface 0 [11, 12, 13], 17 := storedSurface 1 [13, 12, 14, 15],
          18 := newVertex (1, 1, 0)),
       brk := 19\<rparr>"

text \<open>
  A mesh with the triangle 14 on the vertices 11, 12, 13, bounded on both sides by the
  bodies 15 and 16.
\<close>

definition storedBody :: "int \<Rightarrow> addr list \<Rightarrow> FVector3 MeshObj" where
  "storedBody i ss = (unstored BODY)\<lparr>objId := i, mesh := Some 0, parents := ss, area := 1\<rparr>"

definition boundMesh :: "FVector3 Mesh" where
  "boundMesh =
     emptyMesh\<lparr>vertices := [Some 11, Some 12, Some 13], surfaces := [Some 14],
       bodies := [Some 15, Some 16],
       heap := (\<lambda>_. unstored NONE)
         (11 := storedVertex 0 (0, 0, 0) [14], 12 := storedVertex 1 (1, 0, 0) [14],
          13 := storedVertex 2 (0, 1, 0) [14],
          14 := (storedSurface 0 [11, 12, 13])\<lparr>children := [15, 16], b1 := Some 15, b2 := Some 16\<rparr>,
          15 := storedBody 0 [14], 16 := storedBody 1 [14]),
       brk := 17\<rparr>"

text \<open>
  Modelled from the spec: the type descriptors, whose call operators are not in the
  sources, construct a new Surface from a vertex list and a new Body from a Surface list.
  These two construct an unregistered object at the next free address with the given
  list as its parents, and register it as a child of each of them; the Body constructor
  answers null when it is handed a null Surface.
\<close>

fun addChildren :: "'p store \<Rightarrow> addr list \<Rightarrow> addr \<Rightarrow> 'p store" where
  "addChildren h [] c = h"
| "addChildren h (p # ps) c = addChildren (snd (addChild h p c)) ps c"

definition newSurface :: SurfaceType where
  "newSurface m vs =
     (Some (brk m),
      m\<lparr>heap := addChildren ((heap m)(brk m := (unstored SURFACE)\<lparr>parents := vs\<rparr>)) vs (brk m),
        brk := Suc (brk m)\<rparr>)"

definition newBody :: BodyType where
  "newBody m ss =
     (if None \<in> set ss then (None, m)
      else
        let ps = map the ss in
        (Some (brk m),
         m\<lparr>heap := addChildren ((heap m)(brk m := (unstored BODY)\<lparr>parents := ps\<rparr>)) ps (brk m),
           brk := Suc (brk m)\<rparr>))"

text \<open>
  A mesh before any call, in a store with three new vertices 11, 12, 13 and a new
  triangle 14 on them, and a sequence of calls on it: add the triangle, remove vertex 12,
  add it again, and add it once more.
\<close>

definition freshMesh :: "FVector3 Mesh" where
  "freshMesh =
     emptyMesh\<lparr>heap := (\<lambda>_. unstored NONE)
         (11 := newVertex (0, 0, 0), 12 := newVertex (1, 0, 0), 13 := newVertex (0, 1, 0),
          14 := (unstored SURFACE)\<lparr>parents := [11, 12, 13]\<rparr>),
       brk := 15\<rparr>"

definition someCalls :: "MeshOp list" where
  "someCalls = [Add 14, Remove (Some 12), Add 12, Add 12]"

text \<open>
  The new mesh with an unsound triangle: the triangle 14 of the mesh above reports a
  failed \<^verbatim>\<open>validate()\<close>, its three vertices are sound.
\<close>

definition invalidSurfaceMesh :: "FVector3 Mesh" where
  "invalidSurfaceMesh = freshMesh\<lparr>heap := (heap freshMesh)(14 := (heap freshMesh 14)\<lparr>valid := False\<rparr>)\<rparr>"

text \<open>
  The quadrilateral mesh after its Surface 15 was removed: the slot of the Surface is
  null and available, the Surface is unregistered, and the four vertices still list it
  as their child.
\<close>

definition danglingMesh :: "FVector3 Mesh" where
  "danglingMesh =
     quadMesh\<lparr>surfaces := [None], surfaceIdsAvail := {0},
       heap := (heap quadMesh)(15 := (heap quadMesh 15)\<lparr>objId := - 1, mesh := None\<rparr>)\<rparr>"

text \<open>
  The new mesh with a sound triangle 14 that is the one Surface of a new Body 15 which
  reports a failed \<^verbatim>\<open>validate()\<close>; and the new mesh where that Body is sound and is the
  one parent of a new Structure 16 which reports a failed \<^verbatim>\<open>validate()\<close>.
\<close>

definition invalidBodyMesh :: "FVector3 Mesh" where
  "invalidBodyMesh =
     freshMesh\<lparr>heap := (heap freshMesh)(15 := (unstored BODY)\<lparr>parents := [14], valid := False\<rparr>)\<rparr>"

definition invalidStructureMesh :: "FVector3 Mesh" where
  "invalidStructureMesh =
     freshMesh\<lparr>heap := (heap freshMesh)
       (15 := (unstored BODY)\<lparr>parents := [14]\<rparr>,
        16 := (unstored STRUCTURE)\<lparr>parents := [15], valid := False\<rparr>)\<rparr>"

text \<open>
  An object with the given variant, identifier, back-reference, position, parents and
  children, for any type of positions; and the quadrilateral mesh with positions in
  binary32: the quadrilateral 15 with the boundary 11, 12, 13, 14, where the positions of
  the vertices 11 and 12 are given.
\<close>

definition objectAt ::
  "Type \<Rightarrow> int \<Rightarrow> addr option \<Rightarrow> 'p \<Rightarrow> addr list \<Rightarrow> addr list \<Rightarrow> 'p MeshObj" where
  "objectAt t i ms pos ps cs =
     \<lparr>objId = i, mesh = ms, objType = t, parents = ps, children = cs, valid = True,
      position = pos, mass = 1, normal = (0, 0, 1), centroid = (0, 0, 0), area = 0,
      b1 = None, b2 = None\<rparr>"

definition floatQuad :: "Vector3f \<Rightarrow> Vector3f \<Rightarrow> Vector3f Mesh" where
  "floatQuad p11 p12 =
     \<lparr>vertices = [Some 11, Some 12, Some 13, Some 14], surfaces = [Some 15], bodies = [],
      structures = [],
      vertexIdsAvail = {}, surfaceIdsAvail = {}, bodyIdsAvail = {}, structureIdsAvail = {},
      isDirty = False, solver = None, this = 0,
      heap = (\<lambda>_. objectAt NONE (- 1) None (Finite 0, Finite 0, Finite 0) [] [])
        (11 := objectAt VERTEX 0 (Some 0) p11 [] [15],
         12 := objectAt VERTEX 1 (Some 0) p12 [] [15],
         13 := objectAt VERTEX 2 (Some 0) (Finite 1, Finite 1, Finite 0) [] [15],
         14 := objectAt VERTEX 3 (Some 0) (Finite 0, Finite 1, Finite 0) [] [15],
         15 := objectAt SURFACE 0 (Some 0) (Finite 0, Finite 0, Finite 0) [11, 12, 13, 14] []),
      brk = 16\<rparr>"

text \<open>
  Two such meshes: the unit square, and the quadrilateral whose vertex 11 is at 1 and
  whose vertex 12 is at \<open>- (1 + 2 ^ (- 23))\<close> on the first axis, the binary32 value next
  below \<open>- 1\<close>.
\<close>

definition unitQuad :: "Vector3f Mesh" where
  "unitQuad = floatQuad (Finite 0, Finite 0, Finite 0) (Finite 1, Finite 0, Finite 0)"

definition tieQuad :: "Vector3f Mesh" where
  "tieQuad =
     floatQuad (Finite 1, Finite 0, Finite 0) (Finite (- (1 + 1 / 2 ^ 23)), Finite 0, Finite 0)"

text \<open>
  The store of the quadrilateral mesh with vertex 14 moved onto vertex 12, so that the
  two neighbours of vertex 11 coincide.
\<close>

definition pinchedHeap :: "FVector3 store" where
  "pinchedHeap = (heap quadMesh)(14 := storedVertex 3 (1, 0, 0) [15])"

section \<open>Basic facts\<close>

lemmas status_defs = S_OK_def E_FAIL_def NULL_def

lemmas obj_defs = storedVertex_def storedSurface_def storedBody_def unstored_def newVertex_def

lemma upt4: "[0..<4] = [0, 1, 2, 3]"
  by (simp add: upt_rec)

lemma vlength_nonneg: "0 \<le> vlength a"
  by (cases a) (simp add: vlength_def)

lemma quad_parents: "parents (heap quadMesh 15) = [11, 12, 13, 14]"
  by (simp add: quadMesh_def obj_defs emptyMesh_def)

lemma quad_shared:
  "sharedSurfaces (heap quadMesh) 11 14 = [15]"
  "sharedSurfaces (heap quadMesh) 14 11 = [15]"
  "sharedSurfaces (heap quadMesh) 11 12 = [15]"
  by (simp_all add: sharedSurfaces_def quadMesh_def obj_defs emptyMesh_def)

lemma quad_neighbors: "Vertex_neighborVertices (heap quadMesh) 11 = [12, 14]"
  by (simp add: Vertex_neighborVertices_def Surface_neighborVertices_def quadMesh_def obj_defs
        emptyMesh_def upt4 Let_def)

section \<open>Allocation in closed form\<close>

lemma grow_fold:
  "fold (\<lambda>i (v, a). (v @ [None], if i \<noteq> res then insert i a else a)) [res ..< res + k] (invn, av)
   = (invn @ replicate k None, av \<union> {Suc res ..< res + k})"
proof (induction k)
  case 0
  then show ?case by simp
next
  case (Suc k)
  show ?case
  proof (cases "k = 0")
    case True
    then show ?thesis by simp
  next
    case False
    then have "insert (res + k) (av \<union> {Suc res ..< res + k}) = av \<union> {Suc res ..< Suc (res + k)}"
      by auto
    with False Suc show ?thesis by (simp add: replicate_append_same)
  qed
qed

lemma Mesh_invIdAndAlloc_grow:
  "Mesh_invIdAndAlloc incr invn {} (Some p) h =
     (int (length invn), (invn @ replicate incr None)[length invn := Some p],
      {Suc (length invn) ..< length invn + incr}, storeId h p (int (length invn)))"
  by (simp add: Mesh_invIdAndAlloc_def Let_def grow_fold)

section \<open>Failing calls\<close>

lemma Mesh_addObj_fail:
  "Mesh_addObj incr msh invn av obj sol h = (r, invn', av', sol', h') \<Longrightarrow> r \<noteq> S_OK
   \<Longrightarrow> invn' = invn \<and> av' = av \<and> sol' = sol \<and> h' = h"
  by (auto simp: Mesh_addObj_def Let_def split: option.splits if_splits prod.splits)

lemma add_vertex_fail:
  assumes "fst (add_vertex incr m obj) \<noteq> S_OK"
  shows "snd (add_vertex incr m obj) = m\<lparr>isDirty := True, solver := solver_setDirty (solver m) True\<rparr>"
proof -
  let ?m1 = "m\<lparr>isDirty := True, solver := solver_setDirty (solver m) True\<rparr>"
  obtain r invn av sol h where
    a: "Mesh_addObj incr (this m) (vertices m) (vertexIdsAvail m) obj (solver_setDirty (solver m) True) (heap m)
        = (r, invn, av, sol, h)"
    using prod_cases5 by blast
  with assms have "r \<noteq> S_OK" by (simp add: add_vertex_def Let_def)
  from Mesh_addObj_fail [OF a this]
  have e: "invn = vertices m" "av = vertexIdsAvail m" "sol = solver_setDirty (solver m) True" "h = heap m"
    by blast+
  have "add_vertex incr m obj = (r, ?m1\<lparr>vertices := invn, vertexIdsAvail := av, solver := sol, heap := h\<rparr>)"
    unfolding add_vertex_def Let_def by (simp add: a)
  then show ?thesis unfolding e by simp
qed

lemma removeObj_own_cases:
  "fst (removeObj_own m obj) = S_OK \<or> removeObj_own m obj = (E_FAIL, m\<lparr>isDirty := True\<rparr>)"
  by (simp add: removeObj_own_def Let_def split: option.splits)

lemma removeObj_own_fail:
  "fst (removeObj_own m obj) \<noteq> S_OK \<Longrightarrow> removeObj_own m obj = (E_FAIL, m\<lparr>isDirty := True\<rparr>)"
  using removeObj_own_cases [of m obj] by blast

lemma quad_add_fails: "fst (add_vertex 2 quadMesh (Some 11)) = E_FAIL"
  by (simp add: add_vertex_def Mesh_addObj_def Mesh_checkUnstoredObj_def quadMesh_def emptyMesh_def
        obj_defs status_defs Let_def)

lemma empty_remove_fails: "fst (removeObj_own emptyMesh (Some 3)) = E_FAIL"
  by (simp add: removeObj_own_def Mesh_checkStoredObj_def emptyMesh_def obj_defs status_defs Let_def)

section \<open>Rejected arguments of the fan replacement\<close>

text \<open>
  Claim C5. When the number of coefficients differs from the number of neighbours of the
  target vertex, or some coefficient is at most 0 or at least 1,
  \<^verbatim>\<open>Mesh::replace(SurfaceType*, Vertex*, std::vector<float>)\<close> returns the null
  Surface and the mesh, with its inventories and all objects and positions, is the one
  before the call.
\<close>

theorem replace_vertex_rejects:
  "length lenCfs \<noteq> length (Vertex_neighborVertices (heap m) toReplace) \<or>
     (\<exists>cf \<in> set lenCfs. cf \<le> 0 \<or> cf \<ge> 1)
   \<Longrightarrow> replace_vertex fuel incr stype m toReplace lenCfs = Some (None, m)"
  by (auto simp: replace_vertex_def Let_def)

theorem replace_vertex_rejects_witness:
  "(\<exists>cf \<in> set [1 / 2, 3 / 2 :: real]. cf \<le> 0 \<or> cf \<ge> 1) \<and>
   replace_vertex 0 2 newSurface quadMesh 11 [1 / 2, 3 / 2] = Some (None, quadMesh) \<and>
   length [1 / 2 :: real] \<noteq> length (Vertex_neighborVertices (heap quadMesh) 11) \<and>
   replace_vertex 0 2 newSurface quadMesh 11 [1 / 2] = Some (None, quadMesh)"
proof -
  have 1: "\<exists>cf \<in> set [1 / 2, 3 / 2 :: real]. cf \<le> 0 \<or> cf \<ge> 1"
    by (rule bexI [of _ "3 / 2"]) simp_all
  have 2: "length [1 / 2 :: real] \<noteq> length (Vertex_neighborVertices (heap quadMesh) 11)"
    by (simp add: quad_neighbors)
  from replace_vertex_rejects [of "[1 / 2, 3 / 2]" quadMesh 11 0 2 newSurface]
       replace_vertex_rejects [of "[1 / 2]" quadMesh 11 0 2 newSurface] 1 2
  show ?thesis by blast
qed

section \<open>Constraint actors\<close>

text \<open>
  Claim C7, at a failing input. For the body 15 of area 1, with stiffness 1 and target 0,
  the contribution of the surface-area constraint is 1 (the result from the total 0);
  from the running total 5 the result is 1 again, not 6: the energy overwrites the total.
\<close>

theorem SurfaceAreaConstraint_energy_overwrites:
  "SurfaceAreaConstraint_energy 1 0 (heap boundMesh) 15 11 0 = (S_OK, 1) \<and>
   SurfaceAreaConstraint_energy 1 0 (heap boundMesh) 15 11 5 = (S_OK, 1)"
  by (simp add: SurfaceAreaConstraint_energy_def Let_def boundMesh_def obj_defs)

lemma isZero_zero: "0 < eps \<Longrightarrow> isZero eps (vsub a a)"
  by (cases a) (simp add: isZero_def)

lemma acts_inactive:
  assumes "0 < eps"
    and "length (parents (h s)) \<le> 3 \<or>
          (\<exists>va vb. Surface_neighborVertices h s vc = Some (va, vb) \<and>
                   getPosition h va = getPosition h vb)"
  shows "ConvexPolygonConstraint_acts eps h vc s rel = Some (False, rel)"
  using assms by (auto simp: ConvexPolygonConstraint_acts_def Let_def isZero_zero)

text \<open>
  Claim C8. On a Surface with at most three vertices, and at a vertex whose two cyclic
  neighbours on the Surface have the same position, the convex-polygon constraint leaves
  the running energy and the force accumulator as they are, whatever the positions. The
  epsilon of the zero test is positive.
\<close>

theorem ConvexPolygonConstraint_inactive:
  assumes "0 < eps"
    and "length (parents (h s)) \<le> 3 \<or>
          (\<exists>va vb. Surface_neighborVertices h s vc = Some (va, vb) \<and>
                   getPosition h va = getPosition h vb)"
  shows "ConvexPolygonConstraint_energy eps dt lam h s vc e = Some (S_OK, e) \<and>
         ConvexPolygonConstraint_force eps dt lam h s vc f = Some (S_OK, f)"
  using acts_inactive [OF assms]
  by (simp add: ConvexPolygonConstraint_energy_def ConvexPolygonConstraint_force_def)

lemma pinched_neighbors:
  "Surface_neighborVertices pinchedHeap 15 11 = Some (12, 14)"
  "getPosition pinchedHeap 12 = getPosition pinchedHeap 14"
  "length (parents (pinchedHeap 15)) = 4"
  by (simp_all add: Surface_neighborVertices_def pinchedHeap_def getPosition_def quadMesh_def
        obj_defs emptyMesh_def upt4 Let_def)

theorem ConvexPolygonConstraint_inactive_witness:
  "(0 :: real) < 1 / 1000 \<and>
   length (parents (heap boundMesh 14)) \<le> 3 \<and>
   ConvexPolygonConstraint_energy (1 / 1000) 1 2 (heap boundMesh) 14 11 5 = Some (S_OK, 5) \<and>
   ConvexPolygonConstraint_force (1 / 1000) 1 2 (heap boundMesh) 14 11 (1, 2, 3) = Some (S_OK, (1, 2, 3)) \<and>
   \<not> length (parents (pinchedHeap 15)) \<le> 3 \<and>
   Surface_neighborVertices pinchedHeap 15 11 = Some (12, 14) \<and>
   getPosition pinchedHeap 12 = getPosition pinchedHeap 14 \<and>
   ConvexPolygonConstraint_energy (1 / 1000) 1 2 pinchedHeap 15 11 5 = Some (S_OK, 5) \<and>
   ConvexPolygonConstraint_force (1 / 1000) 1 2 pinchedHeap 15 11 (1, 2, 3) = Some (S_OK, (1, 2, 3))"
proof -
  have e: "(0 :: real) < 1 / 1000" by simp
  have t: "length (parents (heap boundMesh 14)) \<le> 3"
    by (simp add: boundMesh_def obj_defs)
  have t': "length (parents (heap boundMesh 14)) \<le> 3 \<or>
          (\<exists>va vb. Surface_neighborVertices (heap boundMesh) 14 11 = Some (va, vb) \<and>
                   getPosition (heap boundMesh) va = getPosition (heap boundMesh) vb)"
    using t by blast
  have q: "length (parents (pinchedHeap 15)) \<le> 3 \<or>
          (\<exists>va vb. Surface_neighborVertices pinchedHeap 15 11 = Some (va, vb) \<and>
                   getPosition pinchedHeap va = getPosition pinchedHeap vb)"
    using pinched_neighbors by blast
  from ConvexPolygonConstraint_inactive [OF e t', of 1 2 5 "(1, 2, 3)"]
       ConvexPolygonConstraint_inactive [OF e q, of 1 2 5 "(1, 2, 3)"]
  show ?thesis using e t pinched_neighbors by simp
qed

section \<open>The adjacency check of the vertex merge\<close>

text \<open>
  Claim C3, at a failing input. On the quadrilateral 11, 12, 13, 14 the vertices 11 and 14
  are the pair of first and last boundary index, cyclically adjacent; the merge rejects
  them in both orders and leaves the mesh as it is.
\<close>

theorem merge_rejects_wrap_around_pair:
  "merge_vertices fuel ar quadMesh 11 14 lenCf = Some (E_FAIL, quadMesh) \<and>
   merge_vertices fuel ar quadMesh 14 11 lenCf = Some (E_FAIL, quadMesh)"
  by (simp add: merge_vertices_def quad_shared quad_parents upt4 status_defs Let_def)

section \<open>The guard of the body extrusion\<close>

lemma lateral_loop_newSurface:
  "\<exists>ss m'. lateral_loop newSurface m bvs nvs js acc = (Some ss, m')"
  by (induction js arbitrary: m acc) (simp_all add: newSurface_def Let_def)

lemma extrude_build_newBody:
  "fst (extrude_build incr newSurface newBody m base nrm normLen) \<noteq> None"
proof -
  obtain nvs m1 where a: "alloc_ring m (map (\<lambda>v. vadd (getPosition (heap m) v) (vscale nrm normLen))
      (parents (heap m base))) [] = (nvs, m1)"
    by (cases "alloc_ring m (map (\<lambda>v. vadd (getPosition (heap m) v) (vscale nrm normLen))
      (parents (heap m base))) []")
  obtain ss m2 where l: "lateral_loop newSurface m1 (parents (heap m base)) nvs
      [0 ..< length (parents (heap m base))] [] = (Some ss, m2)"
    using lateral_loop_newSurface by blast
  show ?thesis
    by (simp add: extrude_build_def Let_def a l newSurface_def newBody_def image_iff)
qed

lemma extrude_guard_passes:
  "b1 (refreshBodies (heap m) base base) \<noteq> None \<Longrightarrow> b2 (refreshBodies (heap m) base base) \<noteq> None \<Longrightarrow>
   extrude_body incr refreshBodies stype btype m base normLen =
   extrude_build incr stype btype (m\<lparr>heap := refreshBodies (heap m) base\<rparr>) base (0, 0, 0) normLen"
  by (simp add: extrude_body_def Mesh_surfaceOutwardNormal_def status_defs Let_def)

text \<open>
  Claim C1, at a failing input. The triangle 14 bounds the bodies 15 and 16 on its two
  sides. \<^verbatim>\<open>Mesh_surfaceOutwardNormal\<close> answers \<^verbatim>\<open>NULL\<close>, which is \<^verbatim>\<open>S_OK\<close>; the extrusion
  passes its guard and, with constructors that succeed, returns a Body instead of null.
\<close>

theorem extrude_twice_bound_returns_body:
  "b1 (heap boundMesh 14) = Some 15 \<and> b2 (heap boundMesh 14) = Some 16 \<and>
   fst (Mesh_surfaceOutwardNormal (heap boundMesh) 14 (Some 15) (Some 16) (0, 0, 0)) = S_OK \<and>
   fst (extrude_body incr (\<lambda>h s. h) newSurface newBody boundMesh 14 normLen) \<noteq> None"
proof -
  have b: "b1 (heap boundMesh 14) = Some 15" "b2 (heap boundMesh 14) = Some 16"
    by (simp_all add: boundMesh_def obj_defs)
  have "extrude_body incr (\<lambda>h s. h) newSurface newBody boundMesh 14 normLen =
        extrude_build incr newSurface newBody (boundMesh\<lparr>heap := heap boundMesh\<rparr>) 14 (0, 0, 0) normLen"
    by (rule extrude_guard_passes) (simp_all add: b)
  then show ?thesis
    using extrude_build_newBody by (simp add: b Mesh_surfaceOutwardNormal_def status_defs)
qed

section \<open>The gathering loop of the surface replacement\<close>

lemma connectedSurfaces_loop_Nil: "connectedSurfaces_loop toReplace [] ss = []"
  by (induction ss) simp_all

lemma connectedSurfaces_Nil: "connectedSurfaces h toReplace = []"
  by (simp add: connectedSurfaces_def connectedSurfaces_loop_Nil)

lemma replace_surface_unfold:
  "replace_surface fuel incr labels m toInsert toReplace =
     (case removeObj fuel m (Some toReplace) of
        None \<Rightarrow> None
      | Some (r1, m1) \<Rightarrow>
          if r1 \<noteq> S_OK then Some (E_FAIL, m1)
          else
            (case add_vertex incr m1 (Some toInsert) of
               (r3, m3) \<Rightarrow>
                 if r3 \<noteq> S_OK then Some (E_FAIL, m3)
                 else Some (notify m3 (logEdit m3 toInsert toReplace ''replace''))))"
  by (simp add: replace_surface_def connectedSurfaces_Nil split: option.splits)

text \<open>
  Claim C2, at a failing input. The triangle 16 and the quadrilateral 17 share the run
  12, 13. Replacing the triangle by the new vertex 18 succeeds, but the quadrilateral
  keeps its boundary 13, 12, 14, 15, the new vertex bounds no Surface, and the vertices
  11, 12, 13 stay in their slots.
\<close>

theorem replace_surface_splices_nothing:
  "map_option (\<lambda>(r, m'). (r, parents (heap m' 17), children (heap m' 18), take 5 (vertices m')))
     (replace_surface (Suc 0) 2 labels twoSurfaceMesh 18 16)
   = Some (S_OK, [13, 12, 14, 15], [], [Some 11, Some 12, Some 13, Some 14, Some 15])"
  by (simp add: replace_surface_unfold removeObj_own_def Mesh_checkStoredObj_def check_def unstore_def
        add_vertex_def Mesh_addObj_def Mesh_checkUnstoredObj_def Mesh_invIdAndAlloc_grow storeId_def
        notify_def solver_log_def solver_setDirty_def
        twoSurfaceMesh_def emptyMesh_def obj_defs status_defs Let_def numeral_2_eq_2)

section \<open>Null slots and lookup\<close>

lemma findVertex_loop_safe:
  "None \<notin> set vs \<Longrightarrow> findVertex_loop h vs pos tol \<noteq> Inl NullDereference"
  by (induction h vs pos tol rule: findVertex_loop.induct) auto

lemma findVertex_loop_fault:
  "None \<in> set vs \<Longrightarrow> tol < 0 \<Longrightarrow> findVertex_loop h vs pos tol = Inl NullDereference"
proof (induction h vs pos tol rule: findVertex_loop.induct)
  case (3 h v vs pos tol)
  have "0 \<le> vlength (relativePosition (h v) pos)" by (rule vlength_nonneg)
  with 3 show ?case by auto
qed auto

lemma remove_children_preserves:
  assumes step: "\<And>m obj r m'. P m \<Longrightarrow> rec m obj = Some (r, m') \<Longrightarrow> P m'"
  shows "P m \<Longrightarrow> remove_children rec m cs = Some (r, m') \<Longrightarrow> P m'"
proof (induction cs arbitrary: m)
  case Nil
  then show ?case by simp
next
  case (Cons c cs)
  from Cons.prems(2) obtain r1 m1 where r1: "rec m (Some c) = Some (r1, m1)"
    by (auto split: option.splits)
  have P1: "P m1" using step [OF Cons.prems(1) r1] .
  show ?case
  proof (cases "r1 = S_OK")
    case True
    with Cons.prems(2) r1 have "remove_children rec m1 cs = Some (r, m')" by simp
    from Cons.IH [OF P1 this] show ?thesis .
  next
    case False
    with Cons.prems(2) r1 have "m' = m1" by simp
    with P1 show ?thesis by simp
  qed
qed

lemma removeObj_preserves:
  assumes own: "\<And>m obj r m'. P m \<Longrightarrow> removeObj_own m obj = (r, m') \<Longrightarrow> P m'"
  shows "P m \<Longrightarrow> removeObj fuel m obj = Some (r, m') \<Longrightarrow> P m'"
proof (induction fuel arbitrary: m obj r m')
  case 0
  then show ?case by simp
next
  case (Suc fuel)
  obtain r1 m1 where o: "removeObj_own m obj = (r1, m1)" by (cases "removeObj_own m obj")
  have P1: "P m1" using own [OF Suc.prems(1) o] .
  show ?case
  proof (cases "r1 = S_OK")
    case False
    with Suc.prems(2) o have "m' = m1" by simp
    with P1 show ?thesis by simp
  next
    case True
    show ?thesis
    proof (cases obj)
      case None
      with True Suc.prems(2) o have "m' = m1" by simp
      with P1 show ?thesis by simp
    next
      case (Some p)
      with True Suc.prems(2) o
      have rc: "remove_children (removeObj fuel) m1 (children (heap m1 p)) = Some (r, m')" by simp
      show ?thesis
        by (rule remove_children_preserves [where P = P and rec = "removeObj fuel", OF _ P1 rc])
           (rule Suc.IH)
    qed
  qed
qed

lemma removeObj_own_null_slot:
  "null_slot i m \<Longrightarrow> removeObj_own m obj = (r, m') \<Longrightarrow> null_slot i m'"
  by (auto simp: removeObj_own_def null_slot_def unstore_def Let_def nth_list_update
           split: if_splits option.splits)

lemma removeObj_own_vertex_null:
  "removeObj_own m (Some p) = (S_OK, m1) \<Longrightarrow> objType (heap m p) = VERTEX
   \<Longrightarrow> null_slot (nat (objId (heap m p))) m1"
  by (auto simp: removeObj_own_def null_slot_def unstore_def Let_def check_def status_defs
           split: if_splits)

lemma removeObj_vertex_null:
  assumes "removeObj fuel m (Some p) = Some (S_OK, m')" and "objType (heap m p) = VERTEX"
  shows "None \<in> set (vertices m')"
proof (cases fuel)
  case 0
  with assms show ?thesis by simp
next
  case (Suc n)
  obtain r1 m1 where o: "removeObj_own m (Some p) = (r1, m1)" by (cases "removeObj_own m (Some p)")
  from assms(1) Suc o have r1: "r1 = S_OK"
    by (cases "r1 = S_OK") (simp_all add: status_defs)
  with assms(1) Suc o
  have rc: "remove_children (removeObj n) m1 (children (heap m1 p)) = Some (S_OK, m')" by simp
  have n1: "null_slot (nat (objId (heap m p))) m1"
    using removeObj_own_vertex_null o r1 assms(2) by blast
  have "null_slot (nat (objId (heap m p))) m'"
    by (rule remove_children_preserves [where P = "null_slot (nat (objId (heap m p)))"
          and rec = "removeObj n", OF _ n1 rc])
       (rule removeObj_preserves [where P = "null_slot (nat (objId (heap m p)))"],
        rule removeObj_own_null_slot)
  then show ?thesis by (auto simp: null_slot_def in_set_conv_nth)
qed

text \<open>
  Claim C10. \<^verbatim>\<open>Mesh::findVertex\<close> dereferences every slot it visits without a null test: it
  is free of a null dereference for all positions and tolerances exactly when no vertex
  slot is null. With a null slot the dereference is reached, for instance by every call
  with a negative tolerance, and a successful remove of a vertex leaves a null slot.
  The four getters answer null for every index at or beyond the size of their inventory.
\<close>

theorem findVertex_safe_iff_no_null_slot:
  "((\<forall>pos tol. findVertex m pos tol \<noteq> Inl NullDereference) \<longleftrightarrow> None \<notin> set (vertices m)) \<and>
   (None \<in> set (vertices m) \<and> tol < 0 \<longrightarrow> findVertex m pos tol = Inl NullDereference) \<and>
   (removeObj fuel m (Some p) = Some (S_OK, m') \<and> objType (heap m p) = VERTEX
      \<longrightarrow> None \<in> set (vertices m')) \<and>
   (length (vertices m) \<le> idx \<longrightarrow> getVertex m idx = None) \<and>
   (length (surfaces m) \<le> idx \<longrightarrow> getSurface m idx = None) \<and>
   (length (bodies m) \<le> idx \<longrightarrow> getBody m idx = None) \<and>
   (length (structures m) \<le> idx \<longrightarrow> getStructure m idx = None)"
proof -
  have a: "(\<forall>pos tol. findVertex m pos tol \<noteq> Inl NullDereference) \<longleftrightarrow> None \<notin> set (vertices m)"
  proof
    assume s: "\<forall>pos tol. findVertex m pos tol \<noteq> Inl NullDereference"
    show "None \<notin> set (vertices m)"
    proof
      assume "None \<in> set (vertices m)"
      then have "findVertex m (0, 0, 0) (- 1) = Inl NullDereference"
        by (simp add: findVertex_def findVertex_loop_fault)
      with s show False by blast
    qed
  next
    assume "None \<notin> set (vertices m)"
    then show "\<forall>pos tol. findVertex m pos tol \<noteq> Inl NullDereference"
      by (simp add: findVertex_def findVertex_loop_safe)
  qed
  have b: "None \<in> set (vertices m) \<and> tol < 0 \<longrightarrow> findVertex m pos tol = Inl NullDereference"
    by (simp add: findVertex_def findVertex_loop_fault)
  have c: "removeObj fuel m (Some p) = Some (S_OK, m') \<and> objType (heap m p) = VERTEX
      \<longrightarrow> None \<in> set (vertices m')"
    using removeObj_vertex_null by blast
  show ?thesis
    using a b c
    by (simp add: getVertex_def getSurface_def getBody_def getStructure_def TF_MESH_GETPART_def)
qed

lemma quad_remove_vertex:
  "\<exists>m1. removeObj (Suc (Suc 0)) quadMesh (Some 11) = Some (S_OK, m1)"
  by (simp add: removeObj_own_def Mesh_checkStoredObj_def check_def unstore_def
        solver_log_def quadMesh_def emptyMesh_def obj_defs status_defs Let_def)

theorem findVertex_safe_iff_no_null_slot_witness:
  "objType (heap quadMesh 11) = VERTEX \<and>
   fst (the (removeObj (Suc (Suc 0)) quadMesh (Some 11))) = S_OK \<and>
   None \<in> set (vertices (snd (the (removeObj (Suc (Suc 0)) quadMesh (Some 11))))) \<and>
   findVertex (snd (the (removeObj (Suc (Suc 0)) quadMesh (Some 11)))) (0, 0, 0) (- 1)
     = Inl NullDereference \<and>
   None \<notin> set (vertices quadMesh) \<and>
   findVertex quadMesh (5, 5, 5) (- 1) \<noteq> Inl NullDereference \<and>
   length (vertices quadMesh) \<le> 4 \<and> getVertex quadMesh 4 = None \<and>
   length (surfaces quadMesh) \<le> 4 \<and> getSurface quadMesh 4 = None \<and>
   length (bodies quadMesh) \<le> 4 \<and> getBody quadMesh 4 = None \<and>
   length (structures quadMesh) \<le> 4 \<and> getStructure quadMesh 4 = None"
proof -
  obtain m1 where r: "removeObj (Suc (Suc 0)) quadMesh (Some 11) = Some (S_OK, m1)"
    using quad_remove_vertex by blast
  have t: "objType (heap quadMesh 11) = VERTEX" by (simp add: quadMesh_def obj_defs)
  have n: "None \<notin> set (vertices quadMesh)" by (simp add: quadMesh_def)
  have l: "length (vertices quadMesh) \<le> 4" "length (surfaces quadMesh) \<le> 4"
    "length (bodies quadMesh) \<le> 4" "length (structures quadMesh) \<le> 4"
    by (simp_all add: quadMesh_def emptyMesh_def)
  have neg: "(- 1 :: real) < 0" by simp
  from findVertex_safe_iff_no_null_slot [of quadMesh "- 1" "(5, 5, 5)" "Suc (Suc 0)" 11 m1 4] r t n l
  have 1: "None \<in> set (vertices m1)"
    "findVertex quadMesh (5, 5, 5) (- 1) \<noteq> Inl NullDereference"
    "getVertex quadMesh 4 = None" "getSurface quadMesh 4 = None"
    "getBody quadMesh 4 = None" "getStructure quadMesh 4 = None"
    by blast+
  from findVertex_safe_iff_no_null_slot [of m1 "- 1" "(0, 0, 0)"] 1(1) neg
  have 2: "findVertex m1 (0, 0, 0) (- 1) = Inl NullDereference" by blast
  show ?thesis using r t n l 1 2 by simp
qed

section \<open>Consistency of the inventories\<close>

lemma inventory_okD:
  assumes "inventory_ok h msh t invn av"
  shows "\<And>i. i \<in> av \<Longrightarrow> i < length invn"
    and "\<And>i. i < length invn \<Longrightarrow> (invn ! i = None) = (i \<in> av)"
    and "\<And>i q. i < length invn \<Longrightarrow> invn ! i = Some q \<Longrightarrow>
           objId (h q) = int i \<and> mesh (h q) = Some msh \<and> objType (h q) = t"
    and "\<And>q. objType (h q) = t \<Longrightarrow> 0 \<le> objId (h q) \<Longrightarrow> mesh (h q) = Some msh \<Longrightarrow>
           nat (objId (h q)) < length invn \<and> invn ! nat (objId (h q)) = Some q"
  using assms unfolding inventory_ok_def by blast+

lemma inventory_okI:
  assumes "\<And>i. i \<in> av \<Longrightarrow> i < length invn"
    and "\<And>i. i < length invn \<Longrightarrow> (invn ! i = None) = (i \<in> av)"
    and "\<And>i q. i < length invn \<Longrightarrow> invn ! i = Some q \<Longrightarrow>
           objId (h q) = int i \<and> mesh (h q) = Some msh \<and> objType (h q) = t"
    and "\<And>q. objType (h q) = t \<Longrightarrow> 0 \<le> objId (h q) \<Longrightarrow> mesh (h q) = Some msh \<Longrightarrow>
           nat (objId (h q)) < length invn \<and> invn ! nat (objId (h q)) = Some q"
  shows "inventory_ok h msh t invn av"
  using assms unfolding inventory_ok_def by blast

lemma inventory_ok_other:
  assumes ok: "inventory_ok h msh t invn av" and tp: "objType (h p) \<noteq> t"
  shows "inventory_ok (h(p := (h p)\<lparr>objId := i, mesh := x\<rparr>)) msh t invn av"
proof -
  note D = inventory_okD [OF ok]
  show ?thesis
  proof (rule inventory_okI)
    fix j assume "j \<in> av" then show "j < length invn" by (rule D(1))
  next
    fix j assume "j < length invn" then show "(invn ! j = None) = (j \<in> av)" by (rule D(2))
  next
    fix j q assume s: "j < length invn" "invn ! j = Some q"
    from D(3) [OF s] tp have "q \<noteq> p" by auto
    with D(3) [OF s]
    show "objId ((h(p := (h p)\<lparr>objId := i, mesh := x\<rparr>)) q) = int j \<and>
          mesh ((h(p := (h p)\<lparr>objId := i, mesh := x\<rparr>)) q) = Some msh \<and>
          objType ((h(p := (h p)\<lparr>objId := i, mesh := x\<rparr>)) q) = t"
      by simp
  next
    fix q
    assume a: "objType ((h(p := (h p)\<lparr>objId := i, mesh := x\<rparr>)) q) = t"
      "0 \<le> objId ((h(p := (h p)\<lparr>objId := i, mesh := x\<rparr>)) q)"
      "mesh ((h(p := (h p)\<lparr>objId := i, mesh := x\<rparr>)) q) = Some msh"
    from a(1) tp have qp: "q \<noteq> p" by auto
    with a have b: "objType (h q) = t" "0 \<le> objId (h q)" "mesh (h q) = Some msh" by simp_all
    from D(4) [OF b] qp
    show "nat (objId ((h(p := (h p)\<lparr>objId := i, mesh := x\<rparr>)) q)) < length invn \<and>
          invn ! nat (objId ((h(p := (h p)\<lparr>objId := i, mesh := x\<rparr>)) q)) = Some q"
      by simp
  qed
qed

lemma inventory_ok_grow:
  assumes ok: "inventory_ok h msh t invn av"
  shows "inventory_ok h msh t (invn @ replicate n None) (av \<union> {length invn ..< length invn + n})"
proof -
  note D = inventory_okD [OF ok]
  show ?thesis
  proof (rule inventory_okI)
    fix j assume "j \<in> av \<union> {length invn ..< length invn + n}"
    then show "j < length (invn @ replicate n None)" using D(1) by fastforce
  next
    fix j assume j: "j < length (invn @ replicate n None)"
    show "((invn @ replicate n None) ! j = None) = (j \<in> av \<union> {length invn ..< length invn + n})"
    proof (cases "j < length invn")
      case True
      with D(2) [OF True] show ?thesis by (simp add: nth_append)
    next
      case False
      with j have "(invn @ replicate n None) ! j = None" by (simp add: nth_append)
      with False j show ?thesis by simp
    qed
  next
    fix j q assume s: "j < length (invn @ replicate n None)" "(invn @ replicate n None) ! j = Some q"
    have jl: "j < length invn"
    proof (rule ccontr)
      assume "\<not> j < length invn"
      with s(1) have "(invn @ replicate n None) ! j = None" by (simp add: nth_append)
      with s(2) show False by simp
    qed
    with s(2) have "invn ! j = Some q" by (simp add: nth_append)
    from D(3) [OF jl this]
    show "objId (h q) = int j \<and> mesh (h q) = Some msh \<and> objType (h q) = t" .
  next
    fix q assume b: "objType (h q) = t" "0 \<le> objId (h q)" "mesh (h q) = Some msh"
    from D(4) [OF b]
    show "nat (objId (h q)) < length (invn @ replicate n None) \<and>
          (invn @ replicate n None) ! nat (objId (h q)) = Some q"
      by (simp add: nth_append)
  qed
qed

lemma inventory_ok_fill:
  assumes ok: "inventory_ok h msh t invn av" and k: "k \<in> av"
    and p: "objId (h p) < 0" and tp: "objType (h p) = t"
  shows "inventory_ok (h(p := (h p)\<lparr>objId := int k, mesh := Some msh\<rparr>)) msh t
           (invn[k := Some p]) (av - {k})"
proof -
  note D = inventory_okD [OF ok]
  from D(1) [OF k] have kl: "k < length invn" .
  from D(2) [OF kl] k have kn: "invn ! k = None" by simp
  have np: "\<And>j. j < length invn \<Longrightarrow> invn ! j \<noteq> Some p"
    using D(3) p by fastforce
  show ?thesis
  proof (rule inventory_okI)
    fix i assume "i \<in> av - {k}"
    then show "i < length (invn[k := Some p])" using D(1) by simp
  next
    fix i assume "i < length (invn[k := Some p])"
    then show "(invn[k := Some p] ! i = None) = (i \<in> av - {k})"
      using D(2) kl by (cases "i = k") simp_all
  next
    fix i q assume a: "i < length (invn[k := Some p])" "invn[k := Some p] ! i = Some q"
    show "objId ((h(p := (h p)\<lparr>objId := int k, mesh := Some msh\<rparr>)) q) = int i \<and>
          mesh ((h(p := (h p)\<lparr>objId := int k, mesh := Some msh\<rparr>)) q) = Some msh \<and>
          objType ((h(p := (h p)\<lparr>objId := int k, mesh := Some msh\<rparr>)) q) = t"
    proof (cases "i = k")
      case True
      with a kl have "q = p" by simp
      with True tp show ?thesis by simp
    next
      case False
      with a have s: "i < length invn" "invn ! i = Some q" by simp_all
      with np have "q \<noteq> p" by blast
      with D(3) [OF s] show ?thesis by simp
    qed
  next
    fix q
    assume a: "objType ((h(p := (h p)\<lparr>objId := int k, mesh := Some msh\<rparr>)) q) = t"
      "0 \<le> objId ((h(p := (h p)\<lparr>objId := int k, mesh := Some msh\<rparr>)) q)"
      "mesh ((h(p := (h p)\<lparr>objId := int k, mesh := Some msh\<rparr>)) q) = Some msh"
    show "nat (objId ((h(p := (h p)\<lparr>objId := int k, mesh := Some msh\<rparr>)) q))
            < length (invn[k := Some p]) \<and>
          invn[k := Some p] ! nat (objId ((h(p := (h p)\<lparr>objId := int k, mesh := Some msh\<rparr>)) q))
            = Some q"
    proof (cases "q = p")
      case True
      with kl show ?thesis by simp
    next
      case False
      with a have b: "objType (h q) = t" "0 \<le> objId (h q)" "mesh (h q) = Some msh" by simp_all
      from D(4) [OF b] kn have "nat (objId (h q)) \<noteq> k" by auto
      with D(4) [OF b] False show ?thesis by simp
    qed
  qed
qed

lemma inventory_ok_clear:
  assumes ok: "inventory_ok h msh t invn av" and tp: "objType (h p) = t"
    and id: "0 \<le> objId (h p)" and ms: "mesh (h p) = Some msh"
  shows "inventory_ok (h(p := (h p)\<lparr>objId := - 1, mesh := None\<rparr>)) msh t
           (invn[nat (objId (h p)) := None]) (insert (nat (objId (h p))) av)"
proof -
  define k where "k = nat (objId (h p))"
  note D = inventory_okD [OF ok]
  from D(4) [OF tp id ms] have kl: "k < length invn" and kp: "invn ! k = Some p"
    by (simp_all add: k_def)
  have other: "\<And>j. j < length invn \<Longrightarrow> invn ! j = Some p \<Longrightarrow> j = k"
    using D(3) by (fastforce simp: k_def)
  have "inventory_ok (h(p := (h p)\<lparr>objId := - 1, mesh := None\<rparr>)) msh t
           (invn[k := None]) (insert k av)"
  proof (rule inventory_okI)
    fix i assume "i \<in> insert k av"
    then show "i < length (invn[k := None])" using D(1) kl by auto
  next
    fix i assume "i < length (invn[k := None])"
    then show "(invn[k := None] ! i = None) = (i \<in> insert k av)"
      using D(2) kl by (cases "i = k") simp_all
  next
    fix i q assume a: "i < length (invn[k := None])" "invn[k := None] ! i = Some q"
    from a kl have ik: "i \<noteq> k" by auto
    with a have s: "i < length invn" "invn ! i = Some q" by simp_all
    with other ik have "q \<noteq> p" by blast
    with D(3) [OF s]
    show "objId ((h(p := (h p)\<lparr>objId := - 1, mesh := None\<rparr>)) q) = int i \<and>
          mesh ((h(p := (h p)\<lparr>objId := - 1, mesh := None\<rparr>)) q) = Some msh \<and>
          objType ((h(p := (h p)\<lparr>objId := - 1, mesh := None\<rparr>)) q) = t"
      by simp
  next
    fix q
    assume a: "objType ((h(p := (h p)\<lparr>objId := - 1, mesh := None\<rparr>)) q) = t"
      "0 \<le> objId ((h(p := (h p)\<lparr>objId := - 1, mesh := None\<rparr>)) q)"
      "mesh ((h(p := (h p)\<lparr>objId := - 1, mesh := None\<rparr>)) q) = Some msh"
    from a(2) have qp: "q \<noteq> p" by auto
    with a have b: "objType (h q) = t" "0 \<le> objId (h q)" "mesh (h q) = Some msh" by simp_all
    from D(4) [OF b] kp qp have "nat (objId (h q)) \<noteq> k" by auto
    with D(4) [OF b] qp
    show "nat (objId ((h(p := (h p)\<lparr>objId := - 1, mesh := None\<rparr>)) q)) < length (invn[k := None]) \<and>
          invn[k := None] ! nat (objId ((h(p := (h p)\<lparr>objId := - 1, mesh := None\<rparr>)) q)) = Some q"
      by simp
  qed
  then show ?thesis by (simp add: k_def)
qed

lemma Mesh_addObj_success:
  assumes a: "Mesh_addObj incr msh invn av (Some p) sol h = (r, invn', av', sol', h')"
    and r: "r = S_OK"
  shows "objId (h p) < 0 \<and> mesh (h p) = None \<and>
         (\<exists>k. h' = h(p := (h p)\<lparr>objId := int k, mesh := Some msh\<rparr>) \<and>
              (if av \<noteq> {} then k = Min av \<and> invn' = invn[k := Some p] \<and> av' = av - {k}
               else k = length invn \<and> invn' = (invn @ replicate incr None)[k := Some p] \<and>
                    av' = {Suc k ..< k + incr}))"
proof -
  have c: "\<not> (Mesh_checkUnstoredObj h (Some p) \<noteq> S_OK \<or> \<not> valid (h p))"
  proof
    assume "Mesh_checkUnstoredObj h (Some p) \<noteq> S_OK \<or> \<not> valid (h p)"
    then have "Mesh_addObj incr msh invn av (Some p) sol h = (E_FAIL, invn, av, sol, h)"
      by (simp add: Mesh_addObj_def)
    with a r show False by (simp add: status_defs)
  qed
  then have u: "objId (h p) < 0" "mesh (h p) = None"
    by (auto simp: Mesh_checkUnstoredObj_def status_defs split: if_splits)
  show ?thesis
  proof (cases "av = {}")
    case True
    from a c show ?thesis
      by (simp add: Mesh_addObj_def True Mesh_invIdAndAlloc_grow storeId_def u Let_def)
  next
    case False
    from a c show ?thesis
      by (simp add: Mesh_addObj_def False Mesh_invIdAndAlloc_def storeId_def u Let_def)
  qed
qed

lemma Mesh_addObj_ok:
  assumes incr: "0 < incr" and ok: "inventory_ok h msh t invn av" and tp: "objType (h p) = t"
    and a: "Mesh_addObj incr msh invn av (Some p) sol h = (r, invn', av', sol', h')"
  shows "inventory_ok h' msh t invn' av'"
proof (cases "r = S_OK")
  case False
  from Mesh_addObj_fail [OF a False] ok show ?thesis by simp
next
  case True
  from Mesh_addObj_success [OF a True] obtain k where
    u: "objId (h p) < 0" and
    h': "h' = h(p := (h p)\<lparr>objId := int k, mesh := Some msh\<rparr>)" and
    k: "if av \<noteq> {} then k = Min av \<and> invn' = invn[k := Some p] \<and> av' = av - {k}
        else k = length invn \<and> invn' = (invn @ replicate incr None)[k := Some p] \<and>
             av' = {Suc k ..< k + incr}"
    by blast
  show ?thesis
  proof (cases "av = {}")
    case False
    have fin: "finite av"
    proof (rule finite_subset)
      show "av \<subseteq> {..< length invn}" using inventory_okD(1) [OF ok] by auto
    qed simp
    have "Min av \<in> av" by (rule Min_in [OF fin False])
    with k False have kin: "k \<in> av" by simp
    from inventory_ok_fill [OF ok kin u tp] k False h' show ?thesis by simp
  next
    case True
    from k True have kk: "k = length invn" "invn' = (invn @ replicate incr None)[k := Some p]"
      "av' = {Suc k ..< k + incr}" by simp_all
    have g: "inventory_ok h msh t (invn @ replicate incr None) ({} \<union> {length invn ..< length invn + incr})"
      using inventory_ok_grow [OF ok] True by simp
    have kin: "k \<in> {} \<union> {length invn ..< length invn + incr}" using incr kk by simp
    have e: "({} \<union> {length invn ..< length invn + incr}) - {k} = {Suc k ..< k + incr}"
      using kk by auto
    from inventory_ok_fill [OF g kin u tp] show ?thesis
      unfolding e h' kk(2) kk(3) .
  qed
qed

lemma Mesh_addObj_frame:
  assumes a: "Mesh_addObj incr msh invn av (Some p) sol h = (r, invn', av', sol', h')"
  shows "(\<lambda>q. objType (h' q)) = (\<lambda>q. objType (h q)) \<and> (\<lambda>q. parents (h' q)) = (\<lambda>q. parents (h q))"
proof (cases "r = S_OK")
  case False
  from Mesh_addObj_fail [OF a False] show ?thesis by simp
next
  case True
  from Mesh_addObj_success [OF a True] obtain k where
    "h' = h(p := (h p)\<lparr>objId := int k, mesh := Some msh\<rparr>)" by blast
  then show ?thesis by auto
qed

lemma Mesh_addObj_other:
  assumes ok: "inventory_ok h msh t2 i2 a2" and tp: "objType (h p) \<noteq> t2"
    and a: "Mesh_addObj incr msh invn av (Some p) sol h = (r, invn', av', sol', h')"
  shows "inventory_ok h' msh t2 i2 a2"
proof (cases "r = S_OK")
  case False
  from Mesh_addObj_fail [OF a False] ok show ?thesis by simp
next
  case True
  from Mesh_addObj_success [OF a True] obtain k where
    h': "h' = h(p := (h p)\<lparr>objId := int k, mesh := Some msh\<rparr>)" by blast
  show ?thesis unfolding h' by (rule inventory_ok_other [OF ok tp])
qed

lemma frameD:
  assumes "frame m' = frame m"
  shows "this m' = this m" and "objType (heap m' q) = objType (heap m q)"
    and "parents (heap m' q) = parents (heap m q)"
  using assms unfolding frame_def by (auto dest: fun_cong)

lemma typed_frame:
  assumes f: "frame m' = frame m" and t: "typed (heap m)"
  shows "typed (heap m')"
  using t unfolding typed_def frameD(2) [OF f] frameD(3) [OF f] .

lemma typedD:
  assumes "typed h"
  shows "objType (h p) = SURFACE \<Longrightarrow> v \<in> set (parents (h p)) \<Longrightarrow> objType (h v) = VERTEX"
    and "objType (h p) = BODY \<Longrightarrow> v \<in> set (parents (h p)) \<Longrightarrow> objType (h v) = SURFACE"
  using assms unfolding typed_def by blast+

lemma mesh_ok_flags [simp]:
  "mesh_ok (m\<lparr>isDirty := d\<rparr>) = mesh_ok m" "mesh_ok (m\<lparr>solver := s\<rparr>) = mesh_ok m"
  by (simp_all add: mesh_ok_def)

lemma frame_flags [simp]:
  "frame (m\<lparr>isDirty := d\<rparr>) = frame m" "frame (m\<lparr>solver := s\<rparr>) = frame m"
  by (simp_all add: frame_def)

lemma store_vertex_ok:
  assumes incr: "0 < incr" and ok: "mesh_ok m" and tp: "objType (heap m p) = VERTEX"
    and a: "Mesh_addObj incr (this m) (vertices m) (vertexIdsAvail m) (Some p) sol (heap m)
            = (r, invn', av', sol', h')"
  shows "mesh_ok (m\<lparr>vertices := invn', vertexIdsAvail := av', solver := sol', heap := h'\<rparr>)"
    and "frame (m\<lparr>vertices := invn', vertexIdsAvail := av', solver := sol', heap := h'\<rparr>) = frame m"
proof -
  from ok have o: "inventory_ok (heap m) (this m) VERTEX (vertices m) (vertexIdsAvail m)"
    "inventory_ok (heap m) (this m) SURFACE (surfaces m) (surfaceIdsAvail m)"
    "inventory_ok (heap m) (this m) BODY (bodies m) (bodyIdsAvail m)"
    "inventory_ok (heap m) (this m) STRUCTURE (structures m) (structureIdsAvail m)"
    by (simp_all add: mesh_ok_def)
  have 1: "inventory_ok h' (this m) VERTEX invn' av'" by (rule Mesh_addObj_ok [OF incr o(1) tp a])
  have 2: "inventory_ok h' (this m) SURFACE (surfaces m) (surfaceIdsAvail m)"
    by (rule Mesh_addObj_other [OF o(2) _ a]) (simp add: tp)
  have 3: "inventory_ok h' (this m) BODY (bodies m) (bodyIdsAvail m)"
    by (rule Mesh_addObj_other [OF o(3) _ a]) (simp add: tp)
  have 4: "inventory_ok h' (this m) STRUCTURE (structures m) (structureIdsAvail m)"
    by (rule Mesh_addObj_other [OF o(4) _ a]) (simp add: tp)
  from 1 2 3 4
  show "mesh_ok (m\<lparr>vertices := invn', vertexIdsAvail := av', solver := sol', heap := h'\<rparr>)"
    by (simp add: mesh_ok_def)
  from Mesh_addObj_frame [OF a]
  show "frame (m\<lparr>vertices := invn', vertexIdsAvail := av', solver := sol', heap := h'\<rparr>) = frame m"
    by (simp add: frame_def)
qed

lemma store_surface_ok:
  assumes incr: "0 < incr" and ok: "mesh_ok m" and tp: "objType (heap m p) = SURFACE"
    and a: "Mesh_addObj incr (this m) (surfaces m) (surfaceIdsAvail m) (Some p) sol (heap m)
            = (r, invn', av', sol', h')"
  shows "mesh_ok (m\<lparr>surfaces := invn', surfaceIdsAvail := av', solver := sol', heap := h'\<rparr>)"
    and "frame (m\<lparr>surfaces := invn', surfaceIdsAvail := av', solver := sol', heap := h'\<rparr>) = frame m"
proof -
  from ok have o: "inventory_ok (heap m) (this m) VERTEX (vertices m) (vertexIdsAvail m)"
    "inventory_ok (heap m) (this m) SURFACE (surfaces m) (surfaceIdsAvail m)"
    "inventory_ok (heap m) (this m) BODY (bodies m) (bodyIdsAvail m)"
    "inventory_ok (heap m) (this m) STRUCTURE (structures m) (structureIdsAvail m)"
    by (simp_all add: mesh_ok_def)
  have 1: "inventory_ok h' (this m) SURFACE invn' av'" by (rule Mesh_addObj_ok [OF incr o(2) tp a])
  have 2: "inventory_ok h' (this m) VERTEX (vertices m) (vertexIdsAvail m)"
    by (rule Mesh_addObj_other [OF o(1) _ a]) (simp add: tp)
  have 3: "inventory_ok h' (this m) BODY (bodies m) (bodyIdsAvail m)"
    by (rule Mesh_addObj_other [OF o(3) _ a]) (simp add: tp)
  have 4: "inventory_ok h' (this m) STRUCTURE (structures m) (structureIdsAvail m)"
    by (rule Mesh_addObj_other [OF o(4) _ a]) (simp add: tp)
  from 1 2 3 4
  show "mesh_ok (m\<lparr>surfaces := invn', surfaceIdsAvail := av', solver := sol', heap := h'\<rparr>)"
    by (simp add: mesh_ok_def)
  from Mesh_addObj_frame [OF a]
  show "frame (m\<lparr>surfaces := invn', surfaceIdsAvail := av', solver := sol', heap := h'\<rparr>) = frame m"
    by (simp add: frame_def)
qed

lemma store_body_ok:
  assumes incr: "0 < incr" and ok: "mesh_ok m" and tp: "objType (heap m p) = BODY"
    and a: "Mesh_addObj incr (this m) (bodies m) (bodyIdsAvail m) (Some p) sol (heap m)
            = (r, invn', av', sol', h')"
  shows "mesh_ok (m\<lparr>bodies := invn', bodyIdsAvail := av', solver := sol', heap := h'\<rparr>)"
    and "frame (m\<lparr>bodies := invn', bodyIdsAvail := av', solver := sol', heap := h'\<rparr>) = frame m"
proof -
  from ok have o: "inventory_ok (heap m) (this m) VERTEX (vertices m) (vertexIdsAvail m)"
    "inventory_ok (heap m) (this m) SURFACE (surfaces m) (surfaceIdsAvail m)"
    "inventory_ok (heap m) (this m) BODY (bodies m) (bodyIdsAvail m)"
    "inventory_ok (heap m) (this m) STRUCTURE (structures m) (structureIdsAvail m)"
    by (simp_all add: mesh_ok_def)
  have 1: "inventory_ok h' (this m) BODY invn' av'" by (rule Mesh_addObj_ok [OF incr o(3) tp a])
  have 2: "inventory_ok h' (this m) VERTEX (vertices m) (vertexIdsAvail m)"
    by (rule Mesh_addObj_other [OF o(1) _ a]) (simp add: tp)
  have 3: "inventory_ok h' (this m) SURFACE (surfaces m) (surfaceIdsAvail m)"
    by (rule Mesh_addObj_other [OF o(2) _ a]) (simp add: tp)
  have 4: "inventory_ok h' (this m) STRUCTURE (structures m) (structureIdsAvail m)"
    by (rule Mesh_addObj_other [OF o(4) _ a]) (simp add: tp)
  from 1 2 3 4
  show "mesh_ok (m\<lparr>bodies := invn', bodyIdsAvail := av', solver := sol', heap := h'\<rparr>)"
    by (simp add: mesh_ok_def)
  from Mesh_addObj_frame [OF a]
  show "frame (m\<lparr>bodies := invn', bodyIdsAvail := av', solver := sol', heap := h'\<rparr>) = frame m"
    by (simp add: frame_def)
qed

lemma store_structure_ok:
  assumes incr: "0 < incr" and ok: "mesh_ok m" and tp: "objType (heap m p) = STRUCTURE"
    and a: "Mesh_addObj incr (this m) (structures m) (structureIdsAvail m) (Some p) sol (heap m)
            = (r, invn', av', sol', h')"
  shows "mesh_ok (m\<lparr>structures := invn', structureIdsAvail := av', solver := sol', heap := h'\<rparr>)"
    and "frame (m\<lparr>structures := invn', structureIdsAvail := av', solver := sol', heap := h'\<rparr>) = frame m"
proof -
  from ok have o: "inventory_ok (heap m) (this m) VERTEX (vertices m) (vertexIdsAvail m)"
    "inventory_ok (heap m) (this m) SURFACE (surfaces m) (surfaceIdsAvail m)"
    "inventory_ok (heap m) (this m) BODY (bodies m) (bodyIdsAvail m)"
    "inventory_ok (heap m) (this m) STRUCTURE (structures m) (structureIdsAvail m)"
    by (simp_all add: mesh_ok_def)
  have 1: "inventory_ok h' (this m) STRUCTURE invn' av'" by (rule Mesh_addObj_ok [OF incr o(4) tp a])
  have 2: "inventory_ok h' (this m) VERTEX (vertices m) (vertexIdsAvail m)"
    by (rule Mesh_addObj_other [OF o(1) _ a]) (simp add: tp)
  have 3: "inventory_ok h' (this m) SURFACE (surfaces m) (surfaceIdsAvail m)"
    by (rule Mesh_addObj_other [OF o(2) _ a]) (simp add: tp)
  have 4: "inventory_ok h' (this m) BODY (bodies m) (bodyIdsAvail m)"
    by (rule Mesh_addObj_other [OF o(3) _ a]) (simp add: tp)
  from 1 2 3 4
  show "mesh_ok (m\<lparr>structures := invn', structureIdsAvail := av', solver := sol', heap := h'\<rparr>)"
    by (simp add: mesh_ok_def)
  from Mesh_addObj_frame [OF a]
  show "frame (m\<lparr>structures := invn', structureIdsAvail := av', solver := sol', heap := h'\<rparr>) = frame m"
    by (simp add: frame_def)
qed

lemma add_vertex_ok:
  assumes incr: "0 < incr" and ok: "mesh_ok m" and tp: "objType (heap m p) = VERTEX"
    and a: "add_vertex incr m (Some p) = (r, m')"
  shows "mesh_ok m' \<and> frame m' = frame m"
proof -
  let ?m1 = "m\<lparr>isDirty := True, solver := solver_setDirty (solver m) True\<rparr>"
  obtain r1 invn av sol h where
    s: "Mesh_addObj incr (this ?m1) (vertices ?m1) (vertexIdsAvail ?m1) (Some p) (solver ?m1) (heap ?m1)
        = (r1, invn, av, sol, h)"
    using prod_cases5 by blast
  have ok1: "mesh_ok ?m1" using ok by simp
  have tp1: "objType (heap ?m1 p) = VERTEX" using tp by simp
  from a s have m': "m' = ?m1\<lparr>vertices := invn, vertexIdsAvail := av, solver := sol, heap := h\<rparr>"
    unfolding add_vertex_def Let_def by simp
  from store_vertex_ok [OF incr ok1 tp1 s] show ?thesis
    unfolding m' by simp
qed

lemma add_vertices_ok:
  assumes incr: "0 < incr"
  shows "mesh_ok m \<Longrightarrow> \<forall>v \<in> set vs. objType (heap m v) = VERTEX \<Longrightarrow>
         add_vertices incr m vs = (r, m') \<Longrightarrow> mesh_ok m' \<and> frame m' = frame m"
proof (induction vs arbitrary: m)
  case Nil
  then show ?case by simp
next
  case (Cons v vs)
  show ?case
  proof (cases "objId (heap m v) < 0")
    case False
    with Cons.prems(3) have "add_vertices incr m vs = (r, m')" by simp
    with Cons.IH [of m] Cons.prems show ?thesis by simp
  next
    case True
    obtain r1 m1 where a: "add_vertex incr m (Some v) = (r1, m1)" by (cases "add_vertex incr m (Some v)")
    from Cons.prems(2) have tv: "objType (heap m v) = VERTEX" by simp
    from add_vertex_ok [OF incr Cons.prems(1) tv a] have ok1: "mesh_ok m1" and f1: "frame m1 = frame m"
      by simp_all
    show ?thesis
    proof (cases "r1 = S_OK")
      case False
      with Cons.prems(3) True a have "m' = m1" by simp
      with ok1 f1 show ?thesis by simp
    next
      case r: True
      with Cons.prems(3) True a have rest: "add_vertices incr m1 vs = (r, m')" by simp
      have "\<forall>v \<in> set vs. objType (heap m1 v) = VERTEX"
        using Cons.prems(2) frameD(2) [OF f1] by simp
      from Cons.IH [OF ok1 this rest] f1 show ?thesis by simp
    qed
  qed
qed

lemma add_surface_ok:
  assumes incr: "0 < incr" and ok: "mesh_ok m" and ty: "typed (heap m)"
    and tp: "objType (heap m s) = SURFACE" and a: "add_surface incr m s = (r, m')"
  shows "mesh_ok m' \<and> frame m' = frame m"
proof -
  let ?m1 = "m\<lparr>isDirty := True\<rparr>"
  obtain r2 m2 where v: "add_vertices incr ?m1 (parents (heap ?m1 s)) = (r2, m2)"
    by (cases "add_vertices incr ?m1 (parents (heap ?m1 s))")
  have "\<forall>v \<in> set (parents (heap ?m1 s)). objType (heap ?m1 v) = VERTEX"
    using typedD(1) [OF ty tp] by simp
  from add_vertices_ok [OF incr _ this v] ok have ok2: "mesh_ok m2" and f2: "frame m2 = frame m"
    by simp_all
  show ?thesis
  proof (cases "r2 = S_OK")
    case False
    with a v have "m' = m2" by (simp add: add_surface_def Let_def)
    with ok2 f2 show ?thesis by simp
  next
    case True
    obtain r1 invn av sol h where
      st: "Mesh_addObj incr (this m2) (surfaces m2) (surfaceIdsAvail m2) (Some s) (solver m2) (heap m2)
          = (r1, invn, av, sol, h)"
      using prod_cases5 by blast
    from a v True st
    have m': "m' = m2\<lparr>surfaces := invn, surfaceIdsAvail := av, solver := sol, heap := h\<rparr>"
      by (simp add: add_surface_def Let_def split: if_splits)
    have tp2: "objType (heap m2 s) = SURFACE" using tp frameD(2) [OF f2] by simp
    from store_surface_ok [OF incr ok2 tp2 st] f2 show ?thesis unfolding m' by simp
  qed
qed

lemma add_surfaces_ok:
  assumes incr: "0 < incr"
  shows "mesh_ok m \<Longrightarrow> typed (heap m) \<Longrightarrow> \<forall>s \<in> set ss. objType (heap m s) = SURFACE \<Longrightarrow>
         add_surfaces incr m ss = (r, m') \<Longrightarrow> mesh_ok m' \<and> frame m' = frame m"
proof (induction ss arbitrary: m)
  case Nil
  then show ?case by simp
next
  case (Cons s ss)
  show ?case
  proof (cases "objId (heap m s) < 0")
    case False
    with Cons.prems(4) have "add_surfaces incr m ss = (r, m')" by simp
    with Cons.IH [of m] Cons.prems show ?thesis by simp
  next
    case True
    obtain r1 m1 where a: "add_surface incr m s = (r1, m1)" by (cases "add_surface incr m s")
    from Cons.prems(3) have ts: "objType (heap m s) = SURFACE" by simp
    from add_surface_ok [OF incr Cons.prems(1) Cons.prems(2) ts a]
    have ok1: "mesh_ok m1" and f1: "frame m1 = frame m" by simp_all
    show ?thesis
    proof (cases "r1 = S_OK")
      case False
      with Cons.prems(4) True a have "m' = m1" by simp
      with ok1 f1 show ?thesis by simp
    next
      case r: True
      with Cons.prems(4) True a have rest: "add_surfaces incr m1 ss = (r, m')" by simp
      have t1: "\<forall>s \<in> set ss. objType (heap m1 s) = SURFACE"
        using Cons.prems(3) frameD(2) [OF f1] by simp
      from Cons.IH [OF ok1 typed_frame [OF f1 Cons.prems(2)] t1 rest] f1 show ?thesis by simp
    qed
  qed
qed

lemma add_body_ok:
  assumes incr: "0 < incr" and ok: "mesh_ok m" and ty: "typed (heap m)"
    and tp: "objType (heap m b) = BODY" and a: "add_body incr m b = (r, m')"
  shows "mesh_ok m' \<and> frame m' = frame m"
proof -
  let ?m1 = "m\<lparr>isDirty := True\<rparr>"
  obtain r2 m2 where v: "add_surfaces incr ?m1 (parents (heap ?m1 b)) = (r2, m2)"
    by (cases "add_surfaces incr ?m1 (parents (heap ?m1 b))")
  have t: "\<forall>s \<in> set (parents (heap ?m1 b)). objType (heap ?m1 s) = SURFACE"
    using typedD(2) [OF ty tp] by simp
  have ty1: "typed (heap ?m1)" using ty by simp
  from add_surfaces_ok [OF incr _ ty1 t v] ok have ok2: "mesh_ok m2" and f2: "frame m2 = frame m"
    by simp_all
  show ?thesis
  proof (cases "r2 = S_OK")
    case False
    with a v have "m' = m2" by (simp add: add_body_def Let_def)
    with ok2 f2 show ?thesis by simp
  next
    case True
    obtain r1 invn av sol h where
      st: "Mesh_addObj incr (this m2) (bodies m2) (bodyIdsAvail m2) (Some b) (solver m2) (heap m2)
          = (r1, invn, av, sol, h)"
      using prod_cases5 by blast
    from a v True st
    have m': "m' = m2\<lparr>bodies := invn, bodyIdsAvail := av, solver := sol, heap := h\<rparr>"
      by (simp add: add_body_def Let_def split: if_splits)
    have tp2: "objType (heap m2 b) = BODY" using tp frameD(2) [OF f2] by simp
    from store_body_ok [OF incr ok2 tp2 st] f2 show ?thesis unfolding m' by simp
  qed
qed

lemma add_parents_ok:
  assumes incr: "0 < incr"
    and rec: "\<And>m p r m'. mesh_ok m \<Longrightarrow> typed (heap m) \<Longrightarrow> objType (heap m p) = STRUCTURE \<Longrightarrow>
                rec m p = Some (r, m') \<Longrightarrow> mesh_ok m' \<and> frame m' = frame m"
  shows "mesh_ok m \<Longrightarrow> typed (heap m) \<Longrightarrow> add_parents rec incr m ps = Some (r, m') \<Longrightarrow>
         mesh_ok m' \<and> frame m' = frame m"
proof (induction ps arbitrary: m)
  case Nil
  then show ?case by simp
next
  case (Cons p ps)
  show ?case
  proof (cases "objId (heap m p) \<ge> 0")
    case True
    with Cons.prems(3) have "add_parents rec incr m ps = Some (r, m')" by simp
    from Cons.IH [OF Cons.prems(1) Cons.prems(2) this] show ?thesis .
  next
    case neg: False
    show ?thesis
    proof (cases "objType (heap m p) = STRUCTURE")
      case True
      from Cons.prems(3) neg True obtain r1 m1 where a: "rec m p = Some (r1, m1)"
        by (auto simp: check_def split: option.splits)
      from rec [OF Cons.prems(1) Cons.prems(2) True a]
      have ok1: "mesh_ok m1" and f1: "frame m1 = frame m" by simp_all
      show ?thesis
      proof (cases "r1 = S_OK")
        case False
        with Cons.prems(3) neg True a have "m' = m1" by (simp add: check_def)
        with ok1 f1 show ?thesis by simp
      next
        case r: True
        with Cons.prems(3) neg True a have rest: "add_parents rec incr m1 ps = Some (r, m')"
          by (simp add: check_def)
        from Cons.IH [OF ok1 typed_frame [OF f1 Cons.prems(2)] rest] f1 show ?thesis by simp
      qed
    next
      case ns: False
      show ?thesis
      proof (cases "objType (heap m p) = BODY")
        case False
        with Cons.prems(3) neg ns have "m' = m" by (simp add: check_def)
        with Cons.prems(1) show ?thesis by simp
      next
        case True
        obtain r1 m1 where a: "add_body incr m p = (r1, m1)" by (cases "add_body incr m p")
        from add_body_ok [OF incr Cons.prems(1) Cons.prems(2) True a]
        have ok1: "mesh_ok m1" and f1: "frame m1 = frame m" by simp_all
        show ?thesis
        proof (cases "r1 = S_OK")
          case False
          with Cons.prems(3) neg ns True a have "m' = m1" by (simp add: check_def)
          with ok1 f1 show ?thesis by simp
        next
          case r: True
          with Cons.prems(3) neg ns True a have rest: "add_parents rec incr m1 ps = Some (r, m')"
            by (simp add: check_def)
          from Cons.IH [OF ok1 typed_frame [OF f1 Cons.prems(2)] rest] f1 show ?thesis by simp
        qed
      qed
    qed
  qed
qed

lemma add_structure_ok:
  assumes incr: "0 < incr"
  shows "mesh_ok m \<Longrightarrow> typed (heap m) \<Longrightarrow> objType (heap m s) = STRUCTURE \<Longrightarrow>
         add_structure fuel incr m s = Some (r, m') \<Longrightarrow> mesh_ok m' \<and> frame m' = frame m"
proof (induction fuel arbitrary: m s r m')
  case 0
  then show ?case by simp
next
  case (Suc fuel)
  let ?m1 = "m\<lparr>isDirty := True\<rparr>"
  from Suc.prems(4) obtain r2 m2 where
    v: "add_parents (add_structure fuel incr) incr ?m1 (parents (heap ?m1 s)) = Some (r2, m2)"
    by (auto simp: Let_def split: option.splits)
  have ok1: "mesh_ok ?m1" "typed (heap ?m1)" using Suc.prems(1,2) by simp_all
  have "mesh_ok m2 \<and> frame m2 = frame ?m1"
    by (rule add_parents_ok [where rec = "add_structure fuel incr", OF incr _ ok1 v])
       (rule Suc.IH)
  then have ok2: "mesh_ok m2" and f2: "frame m2 = frame m" by simp_all
  show ?case
  proof (cases "r2 = S_OK")
    case False
    with Suc.prems(4) v have "m' = m2" by (simp add: Let_def)
    with ok2 f2 show ?thesis by simp
  next
    case True
    obtain r1 invn av sol h where
      st: "Mesh_addObj incr (this m2) (structures m2) (structureIdsAvail m2) (Some s) (solver m2) (heap m2)
          = (r1, invn, av, sol, h)"
      using prod_cases5 by blast
    from Suc.prems(4) v True st
    have m': "m' = m2\<lparr>structures := invn, structureIdsAvail := av, solver := sol, heap := h\<rparr>"
      by (simp add: Let_def split: if_splits)
    have tp2: "objType (heap m2 s) = STRUCTURE" using Suc.prems(3) frameD(2) [OF f2] by simp
    from store_structure_ok [OF incr ok2 tp2 st] f2 show ?thesis unfolding m' by simp
  qed
qed

lemma unstore_heap:
  "heap (unstore m p) = (heap m)(p := (heap m p)\<lparr>objId := - 1, mesh := None\<rparr>)"
  "vertices (unstore m p) = vertices m" "vertexIdsAvail (unstore m p) = vertexIdsAvail m"
  "surfaces (unstore m p) = surfaces m" "surfaceIdsAvail (unstore m p) = surfaceIdsAvail m"
  "bodies (unstore m p) = bodies m" "bodyIdsAvail (unstore m p) = bodyIdsAvail m"
  "structures (unstore m p) = structures m" "structureIdsAvail (unstore m p) = structureIdsAvail m"
  "this (unstore m p) = this m"
  by (simp_all add: unstore_def Let_def)

lemma frame_unstore: "frame (unstore m p) = frame m"
  by (auto simp: frame_def unstore_heap)

lemma mesh_okD:
  assumes "mesh_ok m"
  shows "inventory_ok (heap m) (this m) VERTEX (vertices m) (vertexIdsAvail m)"
    "inventory_ok (heap m) (this m) SURFACE (surfaces m) (surfaceIdsAvail m)"
    "inventory_ok (heap m) (this m) BODY (bodies m) (bodyIdsAvail m)"
    "inventory_ok (heap m) (this m) STRUCTURE (structures m) (structureIdsAvail m)"
  using assms by (simp_all add: mesh_ok_def)

lemma unstore_vertex_ok:
  assumes ok: "mesh_ok m" and tp: "objType (heap m p) = VERTEX"
    and id: "0 \<le> objId (heap m p)" and ms: "mesh (heap m p) = Some (this m)"
  shows "mesh_ok (unstore (m\<lparr>vertices := (vertices m)[nat (objId (heap m p)) := None],
                            vertexIdsAvail := insert (nat (objId (heap m p))) (vertexIdsAvail m)\<rparr>) p)"
proof -
  note o = mesh_okD [OF ok]
  show ?thesis
    unfolding mesh_ok_def unstore_heap
    using inventory_ok_clear [OF o(1) tp id ms]
      inventory_ok_other [OF o(2), where p = p and i = "- 1" and x = None] inventory_ok_other [OF o(3), where p = p and i = "- 1" and x = None]
      inventory_ok_other [OF o(4), where p = p and i = "- 1" and x = None] tp
    by simp
qed

lemma unstore_surface_ok:
  assumes ok: "mesh_ok m" and tp: "objType (heap m p) = SURFACE"
    and id: "0 \<le> objId (heap m p)" and ms: "mesh (heap m p) = Some (this m)"
  shows "mesh_ok (unstore (m\<lparr>surfaces := (surfaces m)[nat (objId (heap m p)) := None],
                            surfaceIdsAvail := insert (nat (objId (heap m p))) (surfaceIdsAvail m)\<rparr>) p)"
proof -
  note o = mesh_okD [OF ok]
  show ?thesis
    unfolding mesh_ok_def unstore_heap
    using inventory_ok_clear [OF o(2) tp id ms]
      inventory_ok_other [OF o(1), where p = p and i = "- 1" and x = None] inventory_ok_other [OF o(3), where p = p and i = "- 1" and x = None]
      inventory_ok_other [OF o(4), where p = p and i = "- 1" and x = None] tp
    by simp
qed

lemma unstore_body_ok:
  assumes ok: "mesh_ok m" and tp: "objType (heap m p) = BODY"
    and id: "0 \<le> objId (heap m p)" and ms: "mesh (heap m p) = Some (this m)"
  shows "mesh_ok (unstore (m\<lparr>bodies := (bodies m)[nat (objId (heap m p)) := None],
                            bodyIdsAvail := insert (nat (objId (heap m p))) (bodyIdsAvail m)\<rparr>) p)"
proof -
  note o = mesh_okD [OF ok]
  show ?thesis
    unfolding mesh_ok_def unstore_heap
    using inventory_ok_clear [OF o(3) tp id ms]
      inventory_ok_other [OF o(1), where p = p and i = "- 1" and x = None] inventory_ok_other [OF o(2), where p = p and i = "- 1" and x = None]
      inventory_ok_other [OF o(4), where p = p and i = "- 1" and x = None] tp
    by simp
qed

lemma unstore_structure_ok:
  assumes ok: "mesh_ok m" and tp: "objType (heap m p) = STRUCTURE"
    and id: "0 \<le> objId (heap m p)" and ms: "mesh (heap m p) = Some (this m)"
  shows "mesh_ok (unstore (m\<lparr>structures := (structures m)[nat (objId (heap m p)) := None],
                            structureIdsAvail := insert (nat (objId (heap m p))) (structureIdsAvail m)\<rparr>) p)"
proof -
  note o = mesh_okD [OF ok]
  show ?thesis
    unfolding mesh_ok_def unstore_heap
    using inventory_ok_clear [OF o(4) tp id ms]
      inventory_ok_other [OF o(1), where p = p and i = "- 1" and x = None] inventory_ok_other [OF o(2), where p = p and i = "- 1" and x = None]
      inventory_ok_other [OF o(3), where p = p and i = "- 1" and x = None] tp
    by simp
qed

text \<open>What a successful own step of removeObj does.\<close>

lemma removeObj_own_success:
  assumes a: "removeObj_own m obj = (r, m')" and r: "r = S_OK"
  shows "\<exists>p. obj = Some p \<and> 0 \<le> objId (heap m p) \<and> mesh (heap m p) = Some (this m) \<and>
     (let i = nat (objId (heap m p)); m1 = m\<lparr>isDirty := True\<rparr> in
      (objType (heap m p) = VERTEX \<and>
         m' = unstore (m1\<lparr>vertices := (vertices m1)[i := None],
                          vertexIdsAvail := insert i (vertexIdsAvail m1)\<rparr>) p) \<or>
      (objType (heap m p) = SURFACE \<and>
         m' = unstore (m1\<lparr>surfaces := (surfaces m1)[i := None],
                          surfaceIdsAvail := insert i (surfaceIdsAvail m1)\<rparr>) p) \<or>
      (objType (heap m p) = BODY \<and>
         m' = unstore (m1\<lparr>bodies := (bodies m1)[i := None],
                          bodyIdsAvail := insert i (bodyIdsAvail m1)\<rparr>) p) \<or>
      (objType (heap m p) = STRUCTURE \<and>
         m' = unstore (m1\<lparr>structures := (structures m1)[i := None],
                          structureIdsAvail := insert i (structureIdsAvail m1)\<rparr>) p))"
proof (cases obj)
  case None
  with a r show ?thesis by (simp add: removeObj_own_def Mesh_checkStoredObj_def Let_def status_defs)
next
  case (Some p)
  have st: "\<not> Mesh_checkStoredObj (heap m) (Some p) (this m) \<noteq> S_OK"
  proof
    assume "Mesh_checkStoredObj (heap m) (Some p) (this m) \<noteq> S_OK"
    with a Some have "r = E_FAIL" by (simp add: removeObj_own_def Let_def)
    with r show False by (simp add: status_defs)
  qed
  then have s: "0 \<le> objId (heap m p)" "mesh (heap m p) = Some (this m)"
    by (auto simp: Mesh_checkStoredObj_def status_defs split: if_splits)
  from a r have ne: "fst (removeObj_own m (Some p)) \<noteq> E_FAIL"
    using Some by (simp add: status_defs)
  show ?thesis
  proof (cases "objType (heap m p)")
    case NONE
    with ne st show ?thesis by (simp add: removeObj_own_def Let_def check_def)
  next
    case VERTEX
    with ne st a Some s show ?thesis
      by (simp add: removeObj_own_def Let_def check_def split: if_splits)
  next
    case SURFACE
    with ne st a Some s show ?thesis
      by (simp add: removeObj_own_def Let_def check_def split: if_splits)
  next
    case BODY
    with ne st a Some s show ?thesis
      by (simp add: removeObj_own_def Let_def check_def split: if_splits)
  next
    case STRUCTURE
    with ne st a Some s show ?thesis
      by (simp add: removeObj_own_def Let_def check_def split: if_splits)
  qed
qed

lemma removeObj_own_ok:
  assumes ok: "mesh_ok m" and a: "removeObj_own m obj = (r, m')"
  shows "mesh_ok m' \<and> frame m' = frame m"
proof (cases "r = S_OK")
  case False
  with a have "fst (removeObj_own m obj) \<noteq> S_OK" by simp
  from removeObj_own_fail [OF this] a have "m' = m\<lparr>isDirty := True\<rparr>" by simp
  with ok show ?thesis by simp
next
  case True
  let ?m1 = "m\<lparr>isDirty := True\<rparr>"
  have ok1: "mesh_ok ?m1" using ok by simp
  from removeObj_own_success [OF a True] obtain p where
    s: "0 \<le> objId (heap ?m1 p)" "mesh (heap ?m1 p) = Some (this ?m1)" and
    c: "(objType (heap ?m1 p) = VERTEX \<and>
         m' = unstore (?m1\<lparr>vertices := (vertices ?m1)[nat (objId (heap ?m1 p)) := None],
                          vertexIdsAvail := insert (nat (objId (heap ?m1 p))) (vertexIdsAvail ?m1)\<rparr>) p) \<or>
      (objType (heap ?m1 p) = SURFACE \<and>
         m' = unstore (?m1\<lparr>surfaces := (surfaces ?m1)[nat (objId (heap ?m1 p)) := None],
                          surfaceIdsAvail := insert (nat (objId (heap ?m1 p))) (surfaceIdsAvail ?m1)\<rparr>) p) \<or>
      (objType (heap ?m1 p) = BODY \<and>
         m' = unstore (?m1\<lparr>bodies := (bodies ?m1)[nat (objId (heap ?m1 p)) := None],
                          bodyIdsAvail := insert (nat (objId (heap ?m1 p))) (bodyIdsAvail ?m1)\<rparr>) p) \<or>
      (objType (heap ?m1 p) = STRUCTURE \<and>
         m' = unstore (?m1\<lparr>structures := (structures ?m1)[nat (objId (heap ?m1 p)) := None],
                          structureIdsAvail := insert (nat (objId (heap ?m1 p))) (structureIdsAvail ?m1)\<rparr>) p)"
    by (auto simp: Let_def)
  from c show ?thesis
  proof (elim disjE conjE)
    assume t: "objType (heap ?m1 p) = VERTEX" and m': "m' = unstore (?m1\<lparr>vertices := (vertices ?m1)[nat (objId (heap ?m1 p)) := None],
                          vertexIdsAvail := insert (nat (objId (heap ?m1 p))) (vertexIdsAvail ?m1)\<rparr>) p"
    from unstore_vertex_ok [OF ok1 t s] show ?thesis
      unfolding m' by (simp add: frame_unstore) (simp add: frame_def)
  next
    assume t: "objType (heap ?m1 p) = SURFACE" and m': "m' = unstore (?m1\<lparr>surfaces := (surfaces ?m1)[nat (objId (heap ?m1 p)) := None],
                          surfaceIdsAvail := insert (nat (objId (heap ?m1 p))) (surfaceIdsAvail ?m1)\<rparr>) p"
    from unstore_surface_ok [OF ok1 t s] show ?thesis
      unfolding m' by (simp add: frame_unstore) (simp add: frame_def)
  next
    assume t: "objType (heap ?m1 p) = BODY" and m': "m' = unstore (?m1\<lparr>bodies := (bodies ?m1)[nat (objId (heap ?m1 p)) := None],
                          bodyIdsAvail := insert (nat (objId (heap ?m1 p))) (bodyIdsAvail ?m1)\<rparr>) p"
    from unstore_body_ok [OF ok1 t s] show ?thesis
      unfolding m' by (simp add: frame_unstore) (simp add: frame_def)
  next
    assume t: "objType (heap ?m1 p) = STRUCTURE" and m': "m' = unstore (?m1\<lparr>structures := (structures ?m1)[nat (objId (heap ?m1 p)) := None],
                          structureIdsAvail := insert (nat (objId (heap ?m1 p))) (structureIdsAvail ?m1)\<rparr>) p"
    from unstore_structure_ok [OF ok1 t s] show ?thesis
      unfolding m' by (simp add: frame_unstore) (simp add: frame_def)
  qed
qed

lemma removeObj_ok:
  assumes ok: "mesh_ok m" and a: "removeObj fuel m obj = Some (r, m')"
  shows "mesh_ok m' \<and> frame m' = frame m"
proof (rule removeObj_preserves [where P = "\<lambda>x. mesh_ok x \<and> frame x = frame m", OF _ _ a])
  fix x obj r x'
  assume "mesh_ok x \<and> frame x = frame m" and "removeObj_own x obj = (r, x')"
  then show "mesh_ok x' \<and> frame x' = frame m" using removeObj_own_ok by fastforce
next
  show "mesh_ok m \<and> frame m = frame m" using ok by simp
qed

lemma apply_op_ok:
  assumes incr: "0 < incr" and ok: "mesh_ok m" and ty: "typed (heap m)"
    and a: "apply_op fuel incr m op = Some (r, m')"
  shows "mesh_ok m' \<and> frame m' = frame m"
proof (cases op)
  case (Remove obj)
  with a have "removeObj fuel m obj = Some (r, m')" by (simp add: apply_op_def)
  from removeObj_ok [OF ok this] show ?thesis .
next
  case (Add p)
  show ?thesis
  proof (cases "objType (heap m p)")
    case NONE
    with a Add show ?thesis by (simp add: apply_op_def)
  next
    case VERTEX
    with a Add have "add_vertex incr m (Some p) = (r, m')" by (simp add: apply_op_def)
    from add_vertex_ok [OF incr ok VERTEX this] show ?thesis .
  next
    case SURFACE
    with a Add have "add_surface incr m p = (r, m')" by (simp add: apply_op_def)
    from add_surface_ok [OF incr ok ty SURFACE this] show ?thesis .
  next
    case BODY
    with a Add have "add_body incr m p = (r, m')" by (simp add: apply_op_def)
    from add_body_ok [OF incr ok ty BODY this] show ?thesis .
  next
    case STRUCTURE
    with a Add have "add_structure fuel incr m p = Some (r, m')" by (simp add: apply_op_def)
    from add_structure_ok [OF incr ok ty STRUCTURE this] show ?thesis .
  qed
qed

lemma run_ok:
  assumes incr: "0 < incr"
  shows "mesh_ok m \<Longrightarrow> typed (heap m) \<Longrightarrow> run fuel incr m ops = Some m' \<Longrightarrow> mesh_ok m'"
proof (induction ops arbitrary: m)
  case Nil
  then show ?case by simp
next
  case (Cons op ops)
  from Cons.prems(3) obtain r m1 where a: "apply_op fuel incr m op = Some (r, m1)"
    and rest: "run fuel incr m1 ops = Some m'"
    by (auto split: option.splits)
  from apply_op_ok [OF incr Cons.prems(1) Cons.prems(2) a]
  have ok1: "mesh_ok m1" and f1: "frame m1 = frame m" by simp_all
  from Cons.IH [OF ok1 typed_frame [OF f1 Cons.prems(2)] rest] show ?case .
qed

lemma mesh_ok_unique_ids:
  assumes ok: "mesh_ok m"
  shows "unique_ids m"
  unfolding unique_ids_def live_def
proof (intro allI impI, elim conjE)
  fix p q
  assume p: "0 \<le> objId (heap m p)" "mesh (heap m p) = Some (this m)"
    and q: "0 \<le> objId (heap m q)" "mesh (heap m q) = Some (this m)"
    and t: "objType (heap m p) = objType (heap m q)" and n: "objType (heap m p) \<noteq> NONE"
    and i: "objId (heap m p) = objId (heap m q)"
  note o = mesh_okD [OF ok]
  have "\<exists>invn av. inventory_ok (heap m) (this m) (objType (heap m p)) invn av"
  proof (cases "objType (heap m p)")
    case NONE
    with n show ?thesis by simp
  next
    case VERTEX
    show ?thesis unfolding VERTEX using o(1) by blast
  next
    case SURFACE
    show ?thesis unfolding SURFACE using o(2) by blast
  next
    case BODY
    show ?thesis unfolding BODY using o(3) by blast
  next
    case STRUCTURE
    show ?thesis unfolding STRUCTURE using o(4) by blast
  qed
  then obtain invn av where io: "inventory_ok (heap m) (this m) (objType (heap m p)) invn av"
    by blast
  from inventory_okD(4) [OF io refl p] have a: "invn ! nat (objId (heap m p)) = Some p" by blast
  from inventory_okD(4) [OF io t [symmetric] q] have b: "invn ! nat (objId (heap m q)) = Some q"
    by blast
  from a have c: "invn ! nat (objId (heap m q)) = Some p" unfolding i .
  from c [symmetric] b have "Some p = Some q" by (rule trans)
  then show "p = q" by (rule option.inject [THEN iffD1])
qed

lemma new_mesh_ok:
  assumes "vertices m = []" "surfaces m = []" "bodies m = []" "structures m = []"
    "vertexIdsAvail m = {}" "surfaceIdsAvail m = {}" "bodyIdsAvail m = {}" "structureIdsAvail m = {}"
    "\<forall>p. mesh (heap m p) \<noteq> Some (this m)"
  shows "mesh_ok m"
  using assms by (simp add: mesh_ok_def inventory_ok_def)

text \<open>
  Claim C6. Along every sequence of add and remove calls on one mesh, from a mesh whose
  inventories are consistent (the new mesh is), every state reached has consistent
  inventories: a slot is null exactly when its index is available, an occupied slot
  holds a live object of the inventory's variant whose identifier is the slot index, and
  every live object sits in the slot of its identifier; hence no two live objects of one
  variant share an identifier. The block increment is positive, and the store is typed
  as the static types of the code require.
\<close>

theorem add_remove_keep_inventories_consistent:
  assumes "0 < incr" and "mesh_ok m" and "typed (heap m)" and "run fuel incr m ops = Some m'"
  shows "mesh_ok m' \<and> unique_ids m'"
  using run_ok [OF assms] mesh_ok_unique_ids by blast

lemma fresh_ok: "mesh_ok freshMesh"
  by (rule new_mesh_ok) (simp_all add: freshMesh_def emptyMesh_def obj_defs)

lemma fresh_typed: "typed (heap freshMesh)"
  by (simp add: typed_def freshMesh_def emptyMesh_def obj_defs)

lemma fresh_run:
  "\<exists>m'. run (Suc 0) 2 freshMesh someCalls = Some m' \<and>
        vertices m' = [Some 11, Some 12, Some 13, None] \<and> surfaces m' = [Some 14, None]"
  by (simp add: someCalls_def apply_op_def add_surface_def add_vertex_def Mesh_addObj_def
        Mesh_checkUnstoredObj_def Mesh_invIdAndAlloc_grow Mesh_invIdAndAlloc_def storeId_def
        removeObj_own_def Mesh_checkStoredObj_def check_def unstore_def
        solver_log_def solver_setDirty_def
        freshMesh_def emptyMesh_def obj_defs status_defs Let_def numeral_2_eq_2)

theorem add_remove_keep_inventories_consistent_witness:
  "(0 :: nat) < 2 \<and> mesh_ok freshMesh \<and> typed (heap freshMesh) \<and>
   run (Suc 0) 2 freshMesh someCalls \<noteq> None \<and>
   vertices (the (run (Suc 0) 2 freshMesh someCalls)) = [Some 11, Some 12, Some 13, None] \<and>
   mesh_ok (the (run (Suc 0) 2 freshMesh someCalls)) \<and>
   unique_ids (the (run (Suc 0) 2 freshMesh someCalls))"
proof -
  obtain m' where r: "run (Suc 0) 2 freshMesh someCalls = Some m'"
    and v: "vertices m' = [Some 11, Some 12, Some 13, None]"
    using fresh_run by blast
  have i: "(0 :: nat) < 2" by simp
  from add_remove_keep_inventories_consistent [OF i fresh_ok fresh_typed r] r v fresh_ok fresh_typed
  show ?thesis by simp
qed

section \<open>The vertex merge\<close>

lemma inventory_ok_cong:
  assumes "\<And>q. objId (h' q) = objId (h q)" "\<And>q. mesh (h' q) = mesh (h q)"
    "\<And>q. objType (h' q) = objType (h q)"
  shows "inventory_ok h' msh t invn av = inventory_ok h msh t invn av"
  unfolding inventory_ok_def assms ..

lemma removeChild_fields:
  "objId (snd (removeChild h p c) q) = objId (h q)" "mesh (snd (removeChild h p c) q) = mesh (h q)"
  "objType (snd (removeChild h p c) q) = objType (h q)"
  "position (snd (removeChild h p c) q) = position (h q)"
  by (simp_all add: removeChild_def)

lemma removeParent_fields:
  "objId (snd (removeParent h c p) q) = objId (h q)" "mesh (snd (removeParent h c p) q) = mesh (h q)"
  "objType (snd (removeParent h c p) q) = objType (h q)"
  "position (snd (removeParent h c p) q) = position (h q)"
  by (simp_all add: removeParent_def)

lemma disconnect_children_fields:
  "disconnect_children h r cs = (res, h') \<Longrightarrow>
   objId (h' q) = objId (h q) \<and> mesh (h' q) = mesh (h q) \<and> objType (h' q) = objType (h q) \<and>
   position (h' q) = position (h q)"
proof (induction cs arbitrary: h)
  case Nil
  then show ?case by simp
next
  case (Cons c cs)
  obtain r1 h1 where a: "removeChild h r c = (r1, h1)" by (cases "removeChild h r c")
  obtain r2 h2 where b: "removeParent h1 c r = (r2, h2)" by (cases "removeParent h1 c r")
  have f1: "objId (h1 q) = objId (h q) \<and> mesh (h1 q) = mesh (h q) \<and> objType (h1 q) = objType (h q) \<and>
   position (h1 q) = position (h q)"
    using removeChild_fields [of h r c q] a by simp
  have f2: "objId (h2 q) = objId (h q) \<and> mesh (h2 q) = mesh (h q) \<and> objType (h2 q) = objType (h q) \<and>
   position (h2 q) = position (h q)"
    using removeParent_fields [of h1 c r q] b f1 by simp
  show ?case
  proof (cases "r1 = S_OK")
    case False
    with Cons.prems a have "h' = h1" by simp
    with f1 show ?thesis by simp
  next
    case r1: True
    show ?thesis
    proof (cases "r2 = S_OK")
      case False
      with Cons.prems a b r1 have "h' = h2" by simp
      with f2 show ?thesis by simp
    next
      case True
      with Cons.prems a b r1 have "disconnect_children h2 r cs = (res, h')" by simp
      from Cons.IH [OF this] f2 show ?thesis by simp
    qed
  qed
qed

lemma mesh_ok_heap_cong:
  assumes "\<And>q. objId (h' q) = objId (heap m q)" "\<And>q. mesh (h' q) = mesh (heap m q)"
    "\<And>q. objType (h' q) = objType (heap m q)"
  shows "mesh_ok (m\<lparr>heap := h'\<rparr>) = mesh_ok m"
  by (simp add: mesh_ok_def inventory_ok_cong [of h' "heap m", OF assms])

lemma removeObj_own_heap:
  assumes a: "removeObj_own m obj = (r, m')"
  shows "heap m' = heap m \<or>
         (\<exists>p. obj = Some p \<and> r = S_OK \<and> heap m' = (heap m)(p := (heap m p)\<lparr>objId := - 1, mesh := None\<rparr>))"
proof (cases "r = S_OK")
  case False
  with a have "fst (removeObj_own m obj) \<noteq> S_OK" by simp
  from removeObj_own_fail [OF this] a show ?thesis by simp
next
  case True
  from removeObj_own_success [OF a True] True show ?thesis
    by (auto simp: Let_def unstore_heap)
qed

lemma removeObj_own_position:
  "position (heap m q) = c \<Longrightarrow> removeObj_own m obj = (r, m') \<Longrightarrow> position (heap m' q) = c"
  using removeObj_own_heap [of m obj r m'] by auto

lemma removeObj_own_unregistered:
  "objId (heap m q) = - 1 \<and> mesh (heap m q) = None \<Longrightarrow> removeObj_own m obj = (r, m')
   \<Longrightarrow> objId (heap m' q) = - 1 \<and> mesh (heap m' q) = None"
  using removeObj_own_heap [of m obj r m'] by auto

lemma removeObj_position:
  "position (heap m q) = c \<Longrightarrow> removeObj fuel m obj = Some (r, m') \<Longrightarrow> position (heap m' q) = c"
  by (rule removeObj_preserves [where P = "\<lambda>x. position (heap x q) = c"])
     (rule removeObj_own_position)

lemma removeObj_unregisters:
  assumes a: "removeObj fuel m (Some p) = Some (S_OK, m')"
  shows "objId (heap m' p) = - 1 \<and> mesh (heap m' p) = None"
proof (cases fuel)
  case 0
  with a show ?thesis by simp
next
  case (Suc n)
  obtain r1 m1 where o: "removeObj_own m (Some p) = (r1, m1)" by (cases "removeObj_own m (Some p)")
  from a Suc o have r1: "r1 = S_OK"
    by (cases "r1 = S_OK") (simp_all add: status_defs)
  with a Suc o
  have rc: "remove_children (removeObj n) m1 (children (heap m1 p)) = Some (S_OK, m')" by simp
  from removeObj_own_heap [OF o] r1
  have n1: "objId (heap m1 p) = - 1 \<and> mesh (heap m1 p) = None"
  proof (elim disjE exE conjE)
    assume h: "heap m1 = heap m"
    from removeObj_own_success [OF o r1] have "heap m1 = (heap m)(p := (heap m p)\<lparr>objId := - 1, mesh := None\<rparr>)"
      by (auto simp: Let_def unstore_heap)
    then show ?thesis by simp
  next
    fix pa assume "Some p = Some pa" "heap m1 = (heap m)(pa := (heap m pa)\<lparr>objId := - 1, mesh := None\<rparr>)"
    then show ?thesis by simp
  qed
  show ?thesis
    by (rule remove_children_preserves [where P = "\<lambda>x. objId (heap x p) = - 1 \<and> mesh (heap x p) = None"
          and rec = "removeObj n", OF _ n1 rc])
       (rule removeObj_preserves [where P = "\<lambda>x. objId (heap x p) = - 1 \<and> mesh (heap x p) = None"],
        rule removeObj_own_unregistered)
qed

lemma unregistered_not_in_inventory:
  assumes ok: "mesh_ok m" and u: "objId (heap m p) = - 1"
  shows "\<not> in_inventory m p"
proof
  assume "in_inventory m p"
  then consider "Some p \<in> set (vertices m)" | "Some p \<in> set (surfaces m)"
    | "Some p \<in> set (bodies m)" | "Some p \<in> set (structures m)"
    by (auto simp: in_inventory_def)
  then have "\<exists>t invn av i. inventory_ok (heap m) (this m) t invn av \<and> i < length invn \<and> invn ! i = Some p"
  proof cases
    case 1
    then obtain i where "i < length (vertices m)" "vertices m ! i = Some p" by (auto simp: in_set_conv_nth)
    with mesh_okD(1) [OF ok] show ?thesis by blast
  next
    case 2
    then obtain i where "i < length (surfaces m)" "surfaces m ! i = Some p" by (auto simp: in_set_conv_nth)
    with mesh_okD(2) [OF ok] show ?thesis by blast
  next
    case 3
    then obtain i where "i < length (bodies m)" "bodies m ! i = Some p" by (auto simp: in_set_conv_nth)
    with mesh_okD(3) [OF ok] show ?thesis by blast
  next
    case 4
    then obtain i where "i < length (structures m)" "structures m ! i = Some p" by (auto simp: in_set_conv_nth)
    with mesh_okD(4) [OF ok] show ?thesis by blast
  qed
  then obtain t invn av i where io: "inventory_ok (heap m) (this m) t invn av"
    and i: "i < length invn" "invn ! i = Some p" by blast
  from inventory_okD(3) [OF io i] have "objId (heap m p) = int i" by simp
  with u show False by simp
qed

lemma notify_fields:
  "heap (snd (notify m ev)) = heap m" "vertices (snd (notify m ev)) = vertices m"
  "surfaces (snd (notify m ev)) = surfaces m" "bodies (snd (notify m ev)) = bodies m"
  "structures (snd (notify m ev)) = structures m"
  by (simp_all add: notify_def split: option.splits)

lemma quad_ok: "mesh_ok quadMesh"
  by (auto simp: mesh_ok_def inventory_ok_def quadMesh_def emptyMesh_def obj_defs nth_Cons'
        less_Suc_eq numeral_eq_Suc split: if_splits)

subsection \<open>Rounding in binary32\<close>

text \<open>
  The spacing of the binary32 values around a real between two powers of two, and the
  rounding of a real that is a multiple of its spacing.
\<close>

lemma floor_log2_eq:
  assumes "2 powr (of_int e) \<le> \<bar>x\<bar>" and "\<bar>x\<bar> < 2 powr (of_int e + 1)"
  shows "\<lfloor>log 2 \<bar>x\<bar>\<rfloor> = e"
proof -
  have pos: "0 < \<bar>x\<bar>" using assms(1) by (smt (verit) powr_gt_zero)
  show ?thesis
    using assms pos by (simp add: floor_log_eq_powr_iff)
qed

lemma ulp32_eq:
  assumes "2 powr (of_int e) \<le> \<bar>x\<bar>" and "\<bar>x\<bar> < 2 powr (of_int e + 1)" and "- 126 \<le> e"
  shows "ulp32 x = 2 powr (of_int e - 23)"
  using floor_log2_eq [OF assms(1,2)] assms(3) by (simp add: ulp32_def max_def)

lemma roundEven_int: "roundEven (of_int n) = n"
  by (simp add: roundEven_def)

lemma round32_exact:
  assumes b: "2 powr (of_int e) \<le> \<bar>x\<bar>" "\<bar>x\<bar> < 2 powr (of_int e + 1)" "- 126 \<le> e"
    and n: "x = 2 powr (of_int e - 23) * of_int n" and r: "\<bar>x\<bar> < 2 ^ 128"
  shows "round32 x = Finite x"
proof -
  have u: "ulp32 x = 2 powr (of_int e - 23)" by (rule ulp32_eq [OF b])
  have x0: "x \<noteq> 0" using b(1) by (smt (verit) powr_gt_zero)
  have q: "x / 2 powr (of_int e - 23) = of_int n" using n by simp
  have y: "ulp32 x * of_int (roundEven (x / ulp32 x)) = x"
    unfolding u q roundEven_int using n by simp
  show ?thesis using x0 r by (simp add: round32_def y Let_def abs_less_iff)
qed

lemma round32_1: "round32 1 = Finite 1"
  by (rule round32_exact [where e = 0 and n = "2 ^ 23"]) (simp_all add: powr_minus)

lemma round32_m1: "round32 (- 1) = Finite (- 1)"
  by (rule round32_exact [where e = 0 and n = "- (2 ^ 23)"]) (simp_all add: powr_minus)

lemma round32_half: "round32 (1 / 2) = Finite (1 / 2)"
  by (rule round32_exact [where e = "- 1" and n = "2 ^ 23"]) (simp_all add: powr_minus)


lemma round32_0: "round32 0 = Finite 0"
  by (simp add: round32_def)

lemma round32_input: "round32 (- (1 + 1 / 2 ^ 23)) = Finite (- (1 + 1 / 2 ^ 23))"
  by (rule round32_exact [where e = 0 and n = "- (2 ^ 23 + 1)"]) (simp_all add: powr_minus field_simps)

lemma round32_midpoint: "round32 (- (1 / 2 ^ 24)) = Finite (- (1 / 2 ^ 24))"
  by (rule round32_exact [where e = "- 24" and n = "- (2 ^ 23)"]) (simp_all add: powr_minus field_simps)

text \<open>A tie: \<open>- (2 + 2 ^ (- 23))\<close> is halfway between \<open>- (2 + 2 ^ (- 22))\<close> and \<open>- 2\<close>.\<close>

lemma roundEven_tie: "roundEven (- (2 ^ 23) - 1 / 2) = - (2 ^ 23)"
proof -
  have f: "\<lfloor>- (2 ^ 23) - 1 / 2 :: real\<rfloor> = - (2 ^ 23) - 1"
    by (rule floor_unique) simp_all
  show ?thesis unfolding roundEven_def f by (simp add: Let_def)
qed

lemma round32_tie: "round32 (- (2 + 1 / 2 ^ 23)) = Finite (- 2)"
proof -
  have u: "ulp32 (- (2 + 1 / 2 ^ 23)) = 2 powr (of_int 1 - 23)"
    by (rule ulp32_eq) (simp_all add: field_simps)
  have p: "2 powr (of_int 1 - 23) = (1 / 2 ^ 22 :: real)"
    by (simp add: powr_minus field_simps)
  have q: "- (2 + 1 / 2 ^ 23) / (1 / 2 ^ 22) = (- (2 ^ 23) - 1 / 2 :: real)"
    by (simp add: field_simps)
  have y: "ulp32 (- (2 + 1 / 2 ^ 23)) * of_int (roundEven (- (2 + 1 / 2 ^ 23) / ulp32 (- (2 + 1 / 2 ^ 23)))) = - 2"
    unfolding u p q roundEven_tie by simp
  have nz: "- (2 + 1 / 2 ^ 23) \<noteq> (0 :: real)" by simp
  show ?thesis
    unfolding round32_def Let_def y using nz by simp
qed

subsection \<open>The position of the kept vertex\<close>

lemma merge_vertices_success:
  assumes a: "merge_vertices fuel ar m toKeep toRemove lenCf = Some (S_OK, m')"
  shows "\<exists>r1 h1 m2 ev. disconnect_children (heap m) toRemove (children (heap m toRemove)) = (r1, h1) \<and>
           removeObj fuel (m\<lparr>heap := h1\<rparr>) (Some toRemove) = Some (S_OK, m2) \<and>
           m' = snd (notify (m2\<lparr>heap := (heap m2)(toKeep := (heap m2 toKeep)\<lparr>position :=
                  vplus ar (position (heap m2 toKeep))
                    (vtimes ar (vminus ar (position (heap m2 toRemove)) (position (heap m2 toKeep))) lenCf)\<rparr>)\<rparr>) ev)"
proof -
  obtain r1 h1 where d: "disconnect_children (heap m) toRemove (children (heap m toRemove)) = (r1, h1)"
    by (cases "disconnect_children (heap m) toRemove (children (heap m toRemove))")
  from a obtain s ss where sh: "sharedSurfaces (heap m) toKeep toRemove = s # ss"
    by (cases "sharedSurfaces (heap m) toKeep toRemove") (simp_all add: merge_vertices_def status_defs)
  have sc: "\<not> merge_scan (parents (heap m s)) [0 ..< length (parents (heap m s))] toKeep toRemove \<noteq> S_OK"
  proof
    assume "merge_scan (parents (heap m s)) [0 ..< length (parents (heap m s))] toKeep toRemove \<noteq> S_OK"
    with a sh show False by (simp add: merge_vertices_def Let_def status_defs)
  qed
  have r1: "\<not> r1 \<noteq> S_OK"
  proof
    assume "r1 \<noteq> S_OK"
    with a sh sc d show False by (simp add: merge_vertices_def Let_def status_defs)
  qed
  from a sh sc d r1 obtain r2 m2 where rm: "removeObj fuel (m\<lparr>heap := h1\<rparr>) (Some toRemove) = Some (r2, m2)"
    by (cases "removeObj fuel (m\<lparr>heap := h1\<rparr>) (Some toRemove)")
       (auto simp: merge_vertices_def Let_def)
  have r2: "r2 = S_OK"
  proof (rule ccontr)
    assume "r2 \<noteq> S_OK"
    with a sh sc d r1 rm show False by (simp add: merge_vertices_def Let_def status_defs)
  qed
  from a sh sc d r1 rm r2 show ?thesis
    by (simp add: merge_vertices_def Let_def setPosition_def getPosition_def status_defs
          split: if_splits) (metis snd_conv)
qed

text \<open>
  Claim C4, as amended. After a successful merge of two vertices of a mesh with
  consistent inventories, the kept vertex is at the value that the float arithmetic gives
  to \<^verbatim>\<open>keep + (remove - keep) * lenCf\<close> on the two positions before the merge, each of
  the three operations with its own rounding, and the removed vertex has identifier -1,
  no mesh, and is in no slot of any inventory. This holds whatever the arithmetic \<open>ar\<close>
  is, that of binary32 included.
\<close>

theorem merge_moves_keep_and_unregisters_remove:
  assumes ok: "mesh_ok m" and a: "merge_vertices fuel ar m toKeep toRemove lenCf = Some (S_OK, m')"
  shows "position (heap m' toKeep) =
           vplus ar (position (heap m toKeep))
             (vtimes ar (vminus ar (position (heap m toRemove)) (position (heap m toKeep))) lenCf) \<and>
         objId (heap m' toRemove) = - 1 \<and> mesh (heap m' toRemove) = None \<and>
         \<not> in_inventory m' toRemove"
proof -
  from merge_vertices_success [OF a] obtain r1 h1 m2 ev where
    d: "disconnect_children (heap m) toRemove (children (heap m toRemove)) = (r1, h1)" and
    rm: "removeObj fuel (m\<lparr>heap := h1\<rparr>) (Some toRemove) = Some (S_OK, m2)" and
    m': "m' = snd (notify (m2\<lparr>heap := (heap m2)(toKeep := (heap m2 toKeep)\<lparr>position :=
                  vplus ar (position (heap m2 toKeep))
                    (vtimes ar (vminus ar (position (heap m2 toRemove)) (position (heap m2 toKeep))) lenCf)\<rparr>)\<rparr>) ev)"
    by blast
  note f = disconnect_children_fields [OF d]
  have ok1: "mesh_ok (m\<lparr>heap := h1\<rparr>)"
    using ok by (simp add: mesh_ok_heap_cong f)
  from removeObj_ok [OF ok1 rm] have ok2: "mesh_ok m2" by simp
  have pos: "position (heap m2 q) = position (heap m q)" for q
    by (rule removeObj_position [OF _ rm]) (simp add: f)
  from removeObj_unregisters [OF rm]
  have u: "objId (heap m2 toRemove) = - 1" "mesh (heap m2 toRemove) = None" by simp_all
  from unregistered_not_in_inventory [OF ok2 u(1)] have ni: "\<not> in_inventory m2 toRemove" .
  have h': "heap m' = (heap m2)(toKeep := (heap m2 toKeep)\<lparr>position :=
                  vplus ar (position (heap m toKeep))
                    (vtimes ar (vminus ar (position (heap m toRemove)) (position (heap m toKeep))) lenCf)\<rparr>)"
    unfolding m' by (simp add: notify_fields pos)
  have inv': "in_inventory m' toRemove = in_inventory m2 toRemove"
    unfolding m' by (simp add: in_inventory_def notify_fields)
  have p: "position (heap m' toKeep) =
           vplus ar (position (heap m toKeep))
             (vtimes ar (vminus ar (position (heap m toRemove)) (position (heap m toKeep))) lenCf)"
    unfolding h' by simp
  have idm: "objId (heap m' toRemove) = - 1 \<and> mesh (heap m' toRemove) = None"
    unfolding h' using u by (cases "toRemove = toKeep") simp_all
  from ni inv' have "\<not> in_inventory m' toRemove" by simp
  with p idm show ?thesis by blast
qed

text \<open>The quadrilateral mesh with positions in binary32, and the merge of its vertices 11 and 12.\<close>

lemma floatQuad_ok: "mesh_ok (floatQuad p q)"
  by (auto simp: mesh_ok_def inventory_ok_def floatQuad_def objectAt_def nth_Cons'
        less_Suc_eq numeral_eq_Suc split: if_splits)

lemma floatQuad_parents: "parents (heap (floatQuad p q) 15) = [11, 12, 13, 14]"
  by (simp add: floatQuad_def objectAt_def)

lemma floatQuad_shared: "sharedSurfaces (heap (floatQuad p q)) 11 12 = [15]"
  by (simp add: sharedSurfaces_def floatQuad_def objectAt_def)

lemma floatQuad_children: "children (heap (floatQuad p q) 12) = [15]"
  by (simp add: floatQuad_def objectAt_def)

lemma floatQuad_disconnect:
  "disconnect_children (heap (floatQuad p q)) 12 [15] =
     (S_OK, (heap (floatQuad p q))(12 := (heap (floatQuad p q) 12)\<lparr>children := []\<rparr>,
                             15 := (heap (floatQuad p q) 15)\<lparr>parents := [11, 13, 14]\<rparr>))"
  by (simp add: removeChild_def removeParent_def floatQuad_children floatQuad_parents status_defs)

lemma floatQuad_removed:
  "\<exists>m2. removeObj (Suc 0) ((floatQuad p q)\<lparr>heap := (heap (floatQuad p q))(12 := (heap (floatQuad p q) 12)\<lparr>children := []\<rparr>,
                             15 := (heap (floatQuad p q) 15)\<lparr>parents := [11, 13, 14]\<rparr>)\<rparr>) (Some 12)
          = Some (S_OK, m2) \<and> position (heap m2 11) = p \<and> position (heap m2 12) = q \<and>
            solver m2 = None"
  by (simp add: removeObj_own_def Mesh_checkStoredObj_def check_def unstore_def solver_log_def
        floatQuad_def objectAt_def status_defs Let_def)

lemma floatQuad_merge:
  "\<exists>m'. merge_vertices (Suc 0) ar (floatQuad p q) 11 12 c = Some (S_OK, m') \<and>
        position (heap m' 11) = vplus ar p (vtimes ar (vminus ar q p) c)"
proof -
  from floatQuad_removed [of p q] obtain m2 where
    r: "removeObj (Suc 0) ((floatQuad p q)\<lparr>heap := (heap (floatQuad p q))(12 := (heap (floatQuad p q) 12)\<lparr>children := []\<rparr>,
                             15 := (heap (floatQuad p q) 15)\<lparr>parents := [11, 13, 14]\<rparr>)\<rparr>) (Some 12)
          = Some (S_OK, m2)"
    and p: "position (heap m2 11) = p" "position (heap m2 12) = q"
    and s: "solver m2 = None"
    by blast
  show ?thesis
    by (simp add: merge_vertices_def floatQuad_shared floatQuad_parents upt4 floatQuad_children
          floatQuad_disconnect r p s
          setPosition_def getPosition_def notify_def status_defs Let_def
          del: disconnect_children.simps removeObj.simps)
qed

lemma unit_half:
  "vplus binary32_arithmetic (Finite 0, Finite 0, Finite 0)
     (vtimes binary32_arithmetic
        (vminus binary32_arithmetic (Finite 1, Finite 0, Finite 0) (Finite 0, Finite 0, Finite 0))
        (Finite (1 / 2))) = (Finite (1 / 2), Finite 0, Finite 0)"
  by (simp add: binary32_arithmetic_def sub32_def round32_0 round32_1 round32_half)

lemma tie_half:
  "vplus binary32_arithmetic (Finite 1, Finite 0, Finite 0)
     (vtimes binary32_arithmetic
        (vminus binary32_arithmetic (Finite (- (1 + 1 / 2 ^ 23)), Finite 0, Finite 0) (Finite 1, Finite 0, Finite 0))
        (Finite (1 / 2))) = (Finite 0, Finite 0, Finite 0)"
proof -
  have a: "- (1 + 1 / 2 ^ 23) + - 1 = (- (2 + 1 / 2 ^ 23) :: real)" by simp
  show ?thesis
    unfolding binary32_arithmetic_def arithmetic.select_convs vsub32.simps vscale32.simps
      vadd32.simps sub32_def neg32.simps add32.simps mul32.simps a round32_tie
    by (simp add: round32_0 round32_m1)
qed

text \<open>
  In binary32 the merge of the vertices at 0 and at 1 of the unit square with the
  coefficient one half leaves the kept vertex at one half.
\<close>

theorem merge_moves_keep_and_unregisters_remove_witness:
  "mesh_ok unitQuad \<and>
   fst (the (merge_vertices (Suc 0) binary32_arithmetic unitQuad 11 12 (Finite (1 / 2)))) = S_OK \<and>
   position (heap (snd (the (merge_vertices (Suc 0) binary32_arithmetic unitQuad 11 12 (Finite (1 / 2))))) 11) =
     (Finite (1 / 2), Finite 0, Finite 0) \<and>
   objId (heap (snd (the (merge_vertices (Suc 0) binary32_arithmetic unitQuad 11 12 (Finite (1 / 2))))) 12) = - 1 \<and>
   mesh (heap (snd (the (merge_vertices (Suc 0) binary32_arithmetic unitQuad 11 12 (Finite (1 / 2))))) 12) = None \<and>
   \<not> in_inventory (snd (the (merge_vertices (Suc 0) binary32_arithmetic unitQuad 11 12 (Finite (1 / 2))))) 12"
proof -
  have ok: "mesh_ok unitQuad" unfolding unitQuad_def by (rule floatQuad_ok)
  obtain m' where r: "merge_vertices (Suc 0) binary32_arithmetic unitQuad 11 12 (Finite (1 / 2)) = Some (S_OK, m')"
    unfolding unitQuad_def
    using floatQuad_merge [of binary32_arithmetic "(Finite 0, Finite 0, Finite 0)"
        "(Finite 1, Finite 0, Finite 0)" "Finite (1 / 2)"]
    by blast
  have pp: "position (heap unitQuad 11) = (Finite 0, Finite 0, Finite 0)"
           "position (heap unitQuad 12) = (Finite 1, Finite 0, Finite 0)"
    by (simp_all add: unitQuad_def floatQuad_def objectAt_def)
  note t = merge_moves_keep_and_unregisters_remove [OF ok r]
  from t have c: "position (heap m' 11) = (Finite (1 / 2), Finite 0, Finite 0)"
    unfolding pp unit_half by blast
  from t have u: "objId (heap m' 12) = - 1" "mesh (heap m' 12) = None" "\<not> in_inventory m' 12"
    by blast+
  have sel: "the (merge_vertices (Suc 0) binary32_arithmetic unitQuad 11 12 (Finite (1 / 2))) = (S_OK, m')"
    using r by simp
  show ?thesis
    unfolding sel fst_conv snd_conv by (intro conjI ok c u refl)
qed

text \<open>
  Claim C4, as stated, fails for the coefficient one half: in binary32 the merge of the
  vertex at 1 with the vertex at \<open>- (1 + 2 ^ (- 23))\<close> succeeds and leaves the kept vertex
  at 0. The difference \<open>- (2 + 2 ^ (- 23))\<close> of the two positions lies halfway between two
  binary32 values and is rounded to \<open>- 2\<close>. The midpoint \<open>- (2 ^ (- 24))\<close> of the two
  positions is a binary32 value, and it is not 0.
\<close>

theorem merge_half_misses_midpoint:
  "mesh_ok tieQuad \<and>
   position (heap tieQuad 11) = (Finite 1, Finite 0, Finite 0) \<and>
   position (heap tieQuad 12) = (Finite (- (1 + 1 / 2 ^ 23)), Finite 0, Finite 0) \<and>
   round32 (- (1 + 1 / 2 ^ 23)) = Finite (- (1 + 1 / 2 ^ 23)) \<and>
   fst (the (merge_vertices (Suc 0) binary32_arithmetic tieQuad 11 12 (Finite (1 / 2)))) = S_OK \<and>
   position (heap (snd (the (merge_vertices (Suc 0) binary32_arithmetic tieQuad 11 12 (Finite (1 / 2))))) 11) =
     (Finite 0, Finite 0, Finite 0) \<and>
   (1 + - (1 + 1 / 2 ^ 23)) / 2 = (- (1 / 2 ^ 24) :: real) \<and>
   round32 (- (1 / 2 ^ 24)) = Finite (- (1 / 2 ^ 24)) \<and>
   Finite (- (1 / 2 ^ 24)) \<noteq> Finite 0"
proof -
  have ok: "mesh_ok tieQuad" unfolding tieQuad_def by (rule floatQuad_ok)
  obtain m' where r: "merge_vertices (Suc 0) binary32_arithmetic tieQuad 11 12 (Finite (1 / 2)) = Some (S_OK, m')"
    and p: "position (heap m' 11) = (Finite 0, Finite 0, Finite 0)"
    unfolding tieQuad_def
    using floatQuad_merge [of binary32_arithmetic "(Finite 1, Finite 0, Finite 0)"
        "(Finite (- (1 + 1 / 2 ^ 23)), Finite 0, Finite 0)" "Finite (1 / 2)"]
    unfolding tie_half by blast
  have pp: "position (heap tieQuad 11) = (Finite 1, Finite 0, Finite 0)"
           "position (heap tieQuad 12) = (Finite (- (1 + 1 / 2 ^ 23)), Finite 0, Finite 0)"
    by (simp_all add: tieQuad_def floatQuad_def objectAt_def)
  have sel: "the (merge_vertices (Suc 0) binary32_arithmetic tieQuad 11 12 (Finite (1 / 2))) = (S_OK, m')"
    using r by simp
  have mid: "(1 + - (1 + 1 / 2 ^ 23)) / 2 = (- (1 / 2 ^ 24) :: real)" by simp
  have ne: "Finite (- (1 / 2 ^ 24)) \<noteq> Finite 0" by simp
  show ?thesis
    unfolding sel fst_conv snd_conv
    by (intro conjI ok pp round32_input p mid round32_midpoint ne refl)
qed

section \<open>Removal returns\<close>

text \<open>
  On a mesh with consistent inventories every successful step of \<^verbatim>\<open>removeObj\<close> empties an
  occupied slot, so the recursion is no deeper than the number of occupied slots: with
  more fuel than that the model returns.
\<close>

lemma filter_clear_slot:
  "k < length xs \<Longrightarrow> xs ! k \<noteq> None \<Longrightarrow>
   Suc (length (filter (\<lambda>x. x \<noteq> None) (xs[k := None]))) = length (filter (\<lambda>x. x \<noteq> None) xs)"
proof (induction xs arbitrary: k)
  case Nil
  then show ?case by simp
next
  case (Cons x xs)
  then show ?case by (cases k) (auto simp del: not_None_eq)
qed

lemma occupied_flags [simp]: "occupied (m\<lparr>isDirty := d\<rparr>) = occupied m"
  by (simp add: occupied_def del: not_None_eq)

lemma occupied_unstore [simp]: "occupied (unstore m p) = occupied m"
  unfolding occupied_def unstore_heap ..

lemma removeObj_own_occupied:
  assumes ok: "mesh_ok m" and a: "removeObj_own m obj = (r, m')"
  shows "(r = S_OK \<longrightarrow> occupied m' < occupied m) \<and> occupied m' \<le> occupied m"
proof (cases "r = S_OK")
  case False
  with a have "fst (removeObj_own m obj) \<noteq> S_OK" by simp
  from removeObj_own_fail [OF this] a have "m' = m\<lparr>isDirty := True\<rparr>" by simp
  with False show ?thesis by simp
next
  case True
  note o = mesh_okD [OF ok]
  from removeObj_own_success [OF a True] obtain p where
    s: "0 \<le> objId (heap m p)" "mesh (heap m p) = Some (this m)" and
    c: "(objType (heap m p) = VERTEX \<and>
         m' = unstore (m\<lparr>isDirty := True, vertices := (vertices m)[nat (objId (heap m p)) := None],
                          vertexIdsAvail := insert (nat (objId (heap m p))) (vertexIdsAvail m)\<rparr>) p) \<or>
      (objType (heap m p) = SURFACE \<and>
         m' = unstore (m\<lparr>isDirty := True, surfaces := (surfaces m)[nat (objId (heap m p)) := None],
                          surfaceIdsAvail := insert (nat (objId (heap m p))) (surfaceIdsAvail m)\<rparr>) p) \<or>
      (objType (heap m p) = BODY \<and>
         m' = unstore (m\<lparr>isDirty := True, bodies := (bodies m)[nat (objId (heap m p)) := None],
                          bodyIdsAvail := insert (nat (objId (heap m p))) (bodyIdsAvail m)\<rparr>) p) \<or>
      (objType (heap m p) = STRUCTURE \<and>
         m' = unstore (m\<lparr>isDirty := True, structures := (structures m)[nat (objId (heap m p)) := None],
                          structureIdsAvail := insert (nat (objId (heap m p))) (structureIdsAvail m)\<rparr>) p)"
    by (auto simp: Let_def)
  have "occupied m' < occupied m"
    using c
  proof (elim disjE conjE)
    assume t: "objType (heap m p) = VERTEX" and m': "m' = unstore (m\<lparr>isDirty := True, vertices := (vertices m)[nat (objId (heap m p)) := None],
                          vertexIdsAvail := insert (nat (objId (heap m p))) (vertexIdsAvail m)\<rparr>) p"
    from inventory_okD(4) [OF o(1) t s]
    have "Suc (length (filter (\<lambda>x. x \<noteq> None) ((vertices m)[nat (objId (heap m p)) := None])))
          = length (filter (\<lambda>x. x \<noteq> None) (vertices m))"
      by (intro filter_clear_slot) simp_all
    then show ?thesis unfolding m' occupied_unstore by (simp add: occupied_def del: not_None_eq)
  next
    assume t: "objType (heap m p) = SURFACE" and m': "m' = unstore (m\<lparr>isDirty := True, surfaces := (surfaces m)[nat (objId (heap m p)) := None],
                          surfaceIdsAvail := insert (nat (objId (heap m p))) (surfaceIdsAvail m)\<rparr>) p"
    from inventory_okD(4) [OF o(2) t s]
    have "Suc (length (filter (\<lambda>x. x \<noteq> None) ((surfaces m)[nat (objId (heap m p)) := None])))
          = length (filter (\<lambda>x. x \<noteq> None) (surfaces m))"
      by (intro filter_clear_slot) simp_all
    then show ?thesis unfolding m' occupied_unstore by (simp add: occupied_def del: not_None_eq)
  next
    assume t: "objType (heap m p) = BODY" and m': "m' = unstore (m\<lparr>isDirty := True, bodies := (bodies m)[nat (objId (heap m p)) := None],
                          bodyIdsAvail := insert (nat (objId (heap m p))) (bodyIdsAvail m)\<rparr>) p"
    from inventory_okD(4) [OF o(3) t s]
    have "Suc (length (filter (\<lambda>x. x \<noteq> None) ((bodies m)[nat (objId (heap m p)) := None])))
          = length (filter (\<lambda>x. x \<noteq> None) (bodies m))"
      by (intro filter_clear_slot) simp_all
    then show ?thesis unfolding m' occupied_unstore by (simp add: occupied_def del: not_None_eq)
  next
    assume t: "objType (heap m p) = STRUCTURE" and m': "m' = unstore (m\<lparr>isDirty := True, structures := (structures m)[nat (objId (heap m p)) := None],
                          structureIdsAvail := insert (nat (objId (heap m p))) (structureIdsAvail m)\<rparr>) p"
    from inventory_okD(4) [OF o(4) t s]
    have "Suc (length (filter (\<lambda>x. x \<noteq> None) ((structures m)[nat (objId (heap m p)) := None])))
          = length (filter (\<lambda>x. x \<noteq> None) (structures m))"
      by (intro filter_clear_slot) simp_all
    then show ?thesis unfolding m' occupied_unstore by (simp add: occupied_def del: not_None_eq)
  qed
  then show ?thesis by simp
qed

lemma remove_children_returns:
  assumes rec: "\<And>x c. mesh_ok x \<Longrightarrow> occupied x \<le> n \<Longrightarrow>
                 \<exists>r x'. rec x (Some c) = Some (r, x') \<and> mesh_ok x' \<and> occupied x' \<le> occupied x"
  shows "mesh_ok m \<Longrightarrow> occupied m \<le> n \<Longrightarrow>
         \<exists>r m'. remove_children rec m cs = Some (r, m') \<and> mesh_ok m' \<and> occupied m' \<le> occupied m"
proof (induction cs arbitrary: m)
  case Nil
  then show ?case by simp
next
  case (Cons c cs)
  from rec [OF Cons.prems] obtain r1 m1 where
    a: "rec m (Some c) = Some (r1, m1)" and ok1: "mesh_ok m1" and le: "occupied m1 \<le> occupied m"
    by blast
  show ?case
  proof (cases "r1 = S_OK")
    case False
    with a ok1 le show ?thesis by simp
  next
    case True
    from le Cons.prems(2) have "occupied m1 \<le> n" by simp
    from Cons.IH [OF ok1 this] obtain r m' where
      "remove_children rec m1 cs = Some (r, m')" "mesh_ok m'" "occupied m' \<le> occupied m1"
      by blast
    with a True le show ?thesis by simp
  qed
qed

lemma removeObj_returns:
  "mesh_ok (m :: 'p Mesh) \<Longrightarrow> occupied m < fuel \<Longrightarrow>
   \<exists>r m'. removeObj fuel m obj = Some (r, m') \<and> mesh_ok m' \<and> occupied m' \<le> occupied m"
proof (induction fuel arbitrary: m obj)
  case 0
  then show ?case by simp
next
  case (Suc fuel)
  obtain r1 m1 where o: "removeObj_own m obj = (r1, m1)" by (cases "removeObj_own m obj")
  from removeObj_own_ok [OF Suc.prems(1) o] have ok1: "mesh_ok m1" by simp
  from removeObj_own_occupied [OF Suc.prems(1) o]
  have lt: "r1 = S_OK \<longrightarrow> occupied m1 < occupied m" and le: "occupied m1 \<le> occupied m" by simp_all
  show ?case
  proof (cases "r1 = S_OK")
    case False
    with o ok1 le show ?thesis by simp
  next
    case True
    show ?thesis
    proof (cases obj)
      case None
      with o True ok1 le show ?thesis by simp
    next
      case (Some p)
      from lt True Suc.prems(2) have b: "occupied m1 \<le> fuel - 1" by simp
      have "\<exists>r m'. remove_children (removeObj fuel) m1 (children (heap m1 p)) = Some (r, m') \<and>
                    mesh_ok m' \<and> occupied m' \<le> occupied m1"
      proof (rule remove_children_returns [where n = "fuel - 1", OF _ ok1 b])
        fix x :: "'p Mesh" and c assume "mesh_ok x" "occupied x \<le> fuel - 1"
        moreover from lt True Suc.prems(2) have "0 < fuel" by simp
        ultimately show "\<exists>r x'. removeObj fuel x (Some c) = Some (r, x') \<and> mesh_ok x' \<and>
                               occupied x' \<le> occupied x"
          by (intro Suc.IH) simp_all
      qed
      with o True Some le show ?thesis by fastforce
    qed
  qed
qed

section \<open>The dirty flag and failing calls\<close>

text \<open>Every add and every remove sets the dirty flag first, and nothing clears it.\<close>

lemma add_vertex_dirty: "isDirty (snd (add_vertex incr m obj))"
  by (simp add: add_vertex_def Let_def split_def)

lemma add_vertices_dirty: "isDirty m \<Longrightarrow> isDirty (snd (add_vertices incr m vs))"
proof (induction vs arbitrary: m)
  case Nil
  then show ?case by simp
next
  case (Cons v vs)
  show ?case
  proof (cases "objId (heap m v) < 0")
    case False
    with Cons show ?thesis by simp
  next
    case True
    obtain r m1 where a: "add_vertex incr m (Some v) = (r, m1)" by (cases "add_vertex incr m (Some v)")
    from add_vertex_dirty [of incr m "Some v"] a have d: "isDirty m1" by simp
    from Cons.IH [OF d] True a d show ?thesis by simp
  qed
qed

lemma add_surface_dirty: "isDirty (snd (add_surface incr m obj))"
proof -
  obtain r m2 where a: "add_vertices incr (m\<lparr>isDirty := True\<rparr>) (parents (heap m obj)) = (r, m2)"
    by (cases "add_vertices incr (m\<lparr>isDirty := True\<rparr>) (parents (heap m obj))")
  from add_vertices_dirty [of "m\<lparr>isDirty := True\<rparr>" incr "parents (heap m obj)"] a
  have d: "isDirty m2" by simp
  show ?thesis using a d by (simp add: add_surface_def Let_def split_def)
qed

lemma add_surfaces_dirty: "isDirty m \<Longrightarrow> isDirty (snd (add_surfaces incr m ss))"
proof (induction ss arbitrary: m)
  case Nil
  then show ?case by simp
next
  case (Cons s ss)
  show ?case
  proof (cases "objId (heap m s) < 0")
    case False
    with Cons show ?thesis by simp
  next
    case True
    obtain r m1 where a: "add_surface incr m s = (r, m1)" by (cases "add_surface incr m s")
    from add_surface_dirty [of incr m s] a have d: "isDirty m1" by simp
    from Cons.IH [OF d] True a d show ?thesis by simp
  qed
qed

lemma add_body_dirty: "isDirty (snd (add_body incr m obj))"
proof -
  obtain r m2 where a: "add_surfaces incr (m\<lparr>isDirty := True\<rparr>) (parents (heap m obj)) = (r, m2)"
    by (cases "add_surfaces incr (m\<lparr>isDirty := True\<rparr>) (parents (heap m obj))")
  from add_surfaces_dirty [of "m\<lparr>isDirty := True\<rparr>" incr "parents (heap m obj)"] a
  have d: "isDirty m2" by simp
  show ?thesis using a d by (simp add: add_body_def Let_def split_def)
qed

lemma add_parents_dirty:
  assumes step: "\<And>m p r m'. rec m p = Some (r, m') \<Longrightarrow> isDirty m'"
  shows "isDirty m \<Longrightarrow> add_parents rec incr m ps = Some (r, m') \<Longrightarrow> isDirty m'"
proof (induction ps arbitrary: m)
  case Nil
  then show ?case by simp
next
  case (Cons p ps)
  show ?case
  proof (cases "objId (heap m p) \<ge> 0")
    case True
    with Cons show ?thesis by simp
  next
    case False
    show ?thesis
    proof (cases "check (heap m) p STRUCTURE")
      case True
      with False Cons.prems(2) obtain r1 m1 where a: "rec m p = Some (r1, m1)"
        by (auto split: option.splits)
      from step [OF a] have d: "isDirty m1" .
      show ?thesis
      proof (cases "r1 = S_OK")
        case True
        with \<open>check (heap m) p STRUCTURE\<close> False a Cons.prems(2)
        have "add_parents rec incr m1 ps = Some (r, m')" by simp
        from Cons.IH [OF d this] show ?thesis .
      next
        case False
        with \<open>check (heap m) p STRUCTURE\<close> \<open>\<not> objId (heap m p) \<ge> 0\<close> a Cons.prems(2)
        have "m' = m1" by simp
        with d show ?thesis by simp
      qed
    next
      case nS: False
      show ?thesis
      proof (cases "check (heap m) p BODY")
        case False
        with nS \<open>\<not> objId (heap m p) \<ge> 0\<close> Cons.prems show ?thesis by simp
      next
        case True
        obtain r1 m1 where a: "add_body incr m p = (r1, m1)" by (cases "add_body incr m p")
        from add_body_dirty [of incr m p] a have d: "isDirty m1" by simp
        show ?thesis
        proof (cases "r1 = S_OK")
          case True
          with \<open>check (heap m) p BODY\<close> nS \<open>\<not> objId (heap m p) \<ge> 0\<close> a Cons.prems(2)
          have "add_parents rec incr m1 ps = Some (r, m')" by simp
          from Cons.IH [OF d this] show ?thesis .
        next
          case False
          with \<open>check (heap m) p BODY\<close> nS \<open>\<not> objId (heap m p) \<ge> 0\<close> a Cons.prems(2)
          have "m' = m1" by simp
          with d show ?thesis by simp
        qed
      qed
    qed
  qed
qed

lemma add_structure_dirty: "add_structure fuel incr m obj = Some (r, m') \<Longrightarrow> isDirty m'"
proof (induction fuel arbitrary: m obj r m')
  case 0
  then show ?case by simp
next
  case (Suc fuel)
  from Suc.prems obtain r2 m2 where
    a: "add_parents (add_structure fuel incr) incr (m\<lparr>isDirty := True\<rparr>) (parents (heap m obj)) = Some (r2, m2)"
    by (auto simp: Let_def split: option.splits)
  have d: "isDirty m2"
    by (rule add_parents_dirty [where rec = "add_structure fuel incr", OF _ _ a])
       (erule Suc.IH, simp)
  from Suc.prems a d show ?case
    by (auto simp: Let_def split_def split: if_splits)
qed

lemma removeObj_own_dirty: "isDirty (snd (removeObj_own m obj))"
  by (simp add: removeObj_own_def unstore_def Let_def split: option.splits)

lemma removeObj_own_keeps_dirty:
  "isDirty m \<Longrightarrow> removeObj_own m obj = (r, m') \<Longrightarrow> isDirty m'"
  using removeObj_own_dirty [of m obj] by simp

lemma removeObj_dirty: "removeObj fuel m obj = Some (r, m') \<Longrightarrow> isDirty m'"
proof (cases fuel)
  case 0
  assume "removeObj fuel m obj = Some (r, m')"
  with 0 show ?thesis by simp
next
  case (Suc n)
  assume a: "removeObj fuel m obj = Some (r, m')"
  obtain r1 m1 where o: "removeObj_own m obj = (r1, m1)" by (cases "removeObj_own m obj")
  from removeObj_own_dirty [of m obj] o have d: "isDirty m1" by simp
  show ?thesis
  proof (cases "r1 = S_OK")
    case False
    with a Suc o have "m' = m1" by simp
    with d show ?thesis by simp
  next
    case True
    show ?thesis
    proof (cases obj)
      case None
      with True a Suc o have "m' = m1" by simp
      with d show ?thesis by simp
    next
      case (Some p)
      with True a Suc o
      have rc: "remove_children (removeObj n) m1 (children (heap m1 p)) = Some (r, m')" by simp
      show ?thesis
        by (rule remove_children_preserves [where P = isDirty and rec = "removeObj n", OF _ d rc])
           (rule removeObj_preserves [where P = isDirty], rule removeObj_own_keeps_dirty)
    qed
  qed
qed

text \<open>Calls that fail after they changed the inventories.\<close>

lemma invalid_surface_add:
  "\<exists>m'. add_surface 2 invalidSurfaceMesh 14 = (E_FAIL, m') \<and>
        vertices m' = [Some 11, Some 12, Some 13, None] \<and> vertexIdsAvail m' = {3} \<and>
        objId (heap m' 11) = 0 \<and> mesh (heap m' 11) = Some 0"
  by (simp add: invalidSurfaceMesh_def add_surface_def add_vertex_def Mesh_addObj_def
        Mesh_checkUnstoredObj_def Mesh_invIdAndAlloc_grow Mesh_invIdAndAlloc_def storeId_def
        solver_log_def solver_setDirty_def
        freshMesh_def emptyMesh_def obj_defs status_defs Let_def numeral_2_eq_2)

lemma invalid_body_add:
  "\<exists>m'. add_body 2 invalidBodyMesh 15 = (E_FAIL, m') \<and>
        vertices m' = [Some 11, Some 12, Some 13, None] \<and> surfaces m' = [Some 14, None]"
  by (simp add: invalidBodyMesh_def add_body_def add_surface_def add_vertex_def Mesh_addObj_def
        Mesh_checkUnstoredObj_def Mesh_invIdAndAlloc_grow Mesh_invIdAndAlloc_def storeId_def
        solver_log_def solver_setDirty_def
        freshMesh_def emptyMesh_def obj_defs status_defs Let_def numeral_2_eq_2)

lemma invalid_structure_add:
  "\<exists>m'. add_structure (Suc 0) 2 invalidStructureMesh 16 = Some (E_FAIL, m') \<and>
        surfaces m' = [Some 14, None] \<and> bodies m' = [Some 15, None] \<and> structures m' = []"
  by (simp add: invalidStructureMesh_def add_body_def add_surface_def add_vertex_def Mesh_addObj_def
        Mesh_checkUnstoredObj_def Mesh_invIdAndAlloc_grow Mesh_invIdAndAlloc_def storeId_def
        solver_log_def solver_setDirty_def check_def
        freshMesh_def emptyMesh_def obj_defs status_defs Let_def numeral_2_eq_2)

lemma dangling_remove:
  "\<exists>m'. removeObj (Suc (Suc 0)) danglingMesh (Some 11) = Some (E_FAIL, m') \<and>
        vertices m' = [None, Some 12, Some 13, Some 14] \<and> vertexIdsAvail m' = {0} \<and>
        objId (heap m' 11) = - 1 \<and> mesh (heap m' 11) = None"
  by (simp add: danglingMesh_def removeObj_own_def Mesh_checkStoredObj_def check_def unstore_def
        solver_log_def quadMesh_def emptyMesh_def obj_defs status_defs Let_def)


text \<open>
  Claim C9, as amended. After every call of \<^verbatim>\<open>Mesh::add\<close>, on a vertex, a Surface, a Body
  or a Structure, and after every call of \<^verbatim>\<open>Mesh::removeObj\<close>, the dirty flag is set,
  whether the call fails or not (for a Structure and for the remove: whenever the call
  returns). \<^verbatim>\<open>Mesh::add(Vertex*)\<close> and the checks of \<^verbatim>\<open>Mesh::removeObj\<close> on the object it
  is called with run before any inventory, available set or object is changed: when the
  add of a vertex fails, or the remove fails at these checks, the mesh is as before the
  call except for the dirty flag (which the add passes on to the solver).
\<close>

theorem add_remove_set_dirty_and_own_checks_fail_clean:
  "isDirty (snd (add_vertex incr m1 v)) \<and>
   isDirty (snd (add_surface incr m2 s)) \<and>
   isDirty (snd (add_body incr m3 b)) \<and>
   (add_structure fuel4 incr m4 st = Some (r4, m4') \<longrightarrow> isDirty m4') \<and>
   (removeObj fuel5 m5 obj5 = Some (r5, m5') \<longrightarrow> isDirty m5') \<and>
   (fst (add_vertex incr m obj) \<noteq> S_OK \<longrightarrow>
      snd (add_vertex incr m obj) = m\<lparr>isDirty := True, solver := solver_setDirty (solver m) True\<rparr>) \<and>
   (fst (removeObj_own m' obj') \<noteq> S_OK \<longrightarrow>
      removeObj (Suc fuel) m' obj' = Some (E_FAIL, m'\<lparr>isDirty := True\<rparr>))"
proof (intro conjI impI)
  show "isDirty (snd (add_vertex incr m1 v))" by (rule add_vertex_dirty)
  show "isDirty (snd (add_surface incr m2 s))" by (rule add_surface_dirty)
  show "isDirty (snd (add_body incr m3 b))" by (rule add_body_dirty)
next
  assume "add_structure fuel4 incr m4 st = Some (r4, m4')"
  then show "isDirty m4'" by (rule add_structure_dirty)
next
  assume "removeObj fuel5 m5 obj5 = Some (r5, m5')"
  then show "isDirty m5'" by (rule removeObj_dirty)
next
  assume "fst (add_vertex incr m obj) \<noteq> S_OK"
  then show "snd (add_vertex incr m obj) = m\<lparr>isDirty := True, solver := solver_setDirty (solver m) True\<rparr>"
    by (rule add_vertex_fail)
next
  assume a: "fst (removeObj_own m' obj') \<noteq> S_OK"
  from removeObj_own_fail [OF a]
  show "removeObj (Suc fuel) m' obj' = Some (E_FAIL, m'\<lparr>isDirty := True\<rparr>)"
    by (simp add: status_defs)
qed

text \<open>
  Calls that meet the hypotheses: the adds and the remove of the examples above return,
  the add of the registered vertex 11 to the quadrilateral mesh fails, and so does the
  remove of the unregistered object 3 from the empty mesh.
\<close>

theorem add_remove_set_dirty_and_own_checks_fail_clean_witness:
  "isDirty (snd (add_vertex 2 quadMesh (Some 11))) \<and>
   isDirty (snd (add_surface 2 invalidSurfaceMesh 14)) \<and>
   isDirty (snd (add_body 2 invalidBodyMesh 15)) \<and>
   add_structure (Suc 0) 2 invalidStructureMesh 16 \<noteq> None \<and>
   isDirty (snd (the (add_structure (Suc 0) 2 invalidStructureMesh 16))) \<and>
   removeObj (Suc (Suc 0)) danglingMesh (Some 11) \<noteq> None \<and>
   isDirty (snd (the (removeObj (Suc (Suc 0)) danglingMesh (Some 11)))) \<and>
   fst (add_vertex 2 quadMesh (Some 11)) \<noteq> S_OK \<and>
   snd (add_vertex 2 quadMesh (Some 11)) =
     quadMesh\<lparr>isDirty := True, solver := solver_setDirty (solver quadMesh) True\<rparr> \<and>
   fst (removeObj_own emptyMesh (Some 3)) \<noteq> S_OK \<and>
   removeObj (Suc 0) emptyMesh (Some 3) = Some (E_FAIL, emptyMesh\<lparr>isDirty := True\<rparr>)"
proof -
  have 1: "fst (add_vertex 2 quadMesh (Some 11)) \<noteq> S_OK"
    by (simp add: quad_add_fails status_defs)
  have 2: "fst (removeObj_own emptyMesh (Some 3)) \<noteq> S_OK"
    by (simp add: empty_remove_fails status_defs)
  obtain m4 where 4: "add_structure (Suc 0) 2 invalidStructureMesh 16 = Some (E_FAIL, m4)"
    using invalid_structure_add by blast
  obtain m5 where 5: "removeObj (Suc (Suc 0)) danglingMesh (Some 11) = Some (E_FAIL, m5)"
    using dangling_remove by blast
  note t = add_remove_set_dirty_and_own_checks_fail_clean
    [of 2 quadMesh "Some 11" invalidSurfaceMesh 14 invalidBodyMesh 15
        "Suc 0" invalidStructureMesh 16 E_FAIL m4
        "Suc (Suc 0)" danglingMesh "Some 11" E_FAIL m5
        quadMesh "Some 11" emptyMesh "Some 3" 0]
  from t have a: "isDirty (snd (add_vertex 2 quadMesh (Some 11)))"
    "isDirty (snd (add_surface 2 invalidSurfaceMesh 14))"
    "isDirty (snd (add_body 2 invalidBodyMesh 15))"
    by blast+
  from t 4 have b: "isDirty m4" by blast
  from t 5 have c: "isDirty m5" by blast
  from t 1 have d: "snd (add_vertex 2 quadMesh (Some 11)) =
     quadMesh\<lparr>isDirty := True, solver := solver_setDirty (solver quadMesh) True\<rparr>"
    by blast
  from t 2 have e: "removeObj (Suc 0) emptyMesh (Some 3) = Some (E_FAIL, emptyMesh\<lparr>isDirty := True\<rparr>)"
    by blast
  have s4: "add_structure (Suc 0) 2 invalidStructureMesh 16 \<noteq> None"
    "snd (the (add_structure (Suc 0) 2 invalidStructureMesh 16)) = m4"
    using 4 by simp_all
  have s5: "removeObj (Suc (Suc 0)) danglingMesh (Some 11) \<noteq> None"
    "snd (the (removeObj (Suc (Suc 0)) danglingMesh (Some 11))) = m5"
    using 5 by simp_all
  show ?thesis
    unfolding s4(2) s5(2) by (intro conjI a b c d e 1 2 s4(1) s5(1))
qed

text \<open>
  Claim C9, as stated, fails, for the dirty flag and for the rest of the state. Adding
  the registered vertex 11 to the clean quadrilateral mesh again fails and leaves the
  mesh dirty, and removing the unregistered object 3 from the clean empty mesh fails and
  leaves a mesh that differs from the empty one. Adding the unsound triangle 14 fails
  after its three vertices were registered: the vertex inventory, its available set and
  the vertices have changed. Adding the unsound Body 15 fails after its Surface was
  registered, and adding the unsound Structure 16 fails after its parent Body was
  registered. Removing vertex 11 whose child Surface is not registered fails in the loop
  over the children, after the slot of the vertex was nulled, its identifier made
  available and the vertex unregistered.
\<close>

theorem failing_calls_change_mesh:
  "fst (add_vertex 2 quadMesh (Some 11)) = E_FAIL \<and>
   isDirty (snd (add_vertex 2 quadMesh (Some 11))) \<noteq> isDirty quadMesh \<and>
   removeObj 1 emptyMesh (Some 3) = Some (E_FAIL, emptyMesh\<lparr>isDirty := True\<rparr>) \<and>
   emptyMesh\<lparr>isDirty := True\<rparr> \<noteq> emptyMesh \<and>
   fst (add_surface 2 invalidSurfaceMesh 14) = E_FAIL \<and>
   vertices (snd (add_surface 2 invalidSurfaceMesh 14)) = [Some 11, Some 12, Some 13, None] \<and>
   vertexIdsAvail (snd (add_surface 2 invalidSurfaceMesh 14)) = {3} \<and>
   objId (heap (snd (add_surface 2 invalidSurfaceMesh 14)) 11) = 0 \<and>
   vertices invalidSurfaceMesh = [] \<and> vertexIdsAvail invalidSurfaceMesh = {} \<and>
   objId (heap invalidSurfaceMesh 11) = - 1 \<and>
   fst (add_body 2 invalidBodyMesh 15) = E_FAIL \<and>
   surfaces (snd (add_body 2 invalidBodyMesh 15)) = [Some 14, None] \<and>
   surfaces invalidBodyMesh = [] \<and>
   fst (the (add_structure (Suc 0) 2 invalidStructureMesh 16)) = E_FAIL \<and>
   bodies (snd (the (add_structure (Suc 0) 2 invalidStructureMesh 16))) = [Some 15, None] \<and>
   bodies invalidStructureMesh = [] \<and>
   fst (the (removeObj (Suc (Suc 0)) danglingMesh (Some 11))) = E_FAIL \<and>
   vertices (snd (the (removeObj (Suc (Suc 0)) danglingMesh (Some 11)))) =
     [None, Some 12, Some 13, Some 14] \<and>
   vertexIdsAvail (snd (the (removeObj (Suc (Suc 0)) danglingMesh (Some 11)))) = {0} \<and>
   objId (heap (snd (the (removeObj (Suc (Suc 0)) danglingMesh (Some 11)))) 11) = - 1 \<and>
   vertices danglingMesh = [Some 11, Some 12, Some 13, Some 14] \<and>
   vertexIdsAvail danglingMesh = {} \<and> objId (heap danglingMesh 11) = 0"
proof -
  have 1: "fst (add_vertex 2 quadMesh (Some 11)) \<noteq> S_OK"
    by (simp add: quad_add_fails status_defs)
  have 2: "fst (removeObj_own emptyMesh (Some 3)) \<noteq> S_OK"
    by (simp add: empty_remove_fails status_defs)
  have 3: "\<not> isDirty quadMesh" "\<not> isDirty emptyMesh"
    by (simp_all add: quadMesh_def emptyMesh_def)
  have 4: "emptyMesh\<lparr>isDirty := True\<rparr> \<noteq> emptyMesh"
  proof
    assume "emptyMesh\<lparr>isDirty := True\<rparr> = emptyMesh"
    then have "isDirty (emptyMesh\<lparr>isDirty := True\<rparr>) = isDirty emptyMesh" by simp
    with 3 show False by simp
  qed
  from add_vertex_fail [OF 1] removeObj_own_fail [OF 2] 3 4
  have a: "fst (add_vertex 2 quadMesh (Some 11)) = E_FAIL \<and>
   isDirty (snd (add_vertex 2 quadMesh (Some 11))) \<noteq> isDirty quadMesh \<and>
   removeObj 1 emptyMesh (Some 3) = Some (E_FAIL, emptyMesh\<lparr>isDirty := True\<rparr>) \<and>
   emptyMesh\<lparr>isDirty := True\<rparr> \<noteq> emptyMesh"
    by (simp add: quad_add_fails status_defs)
  obtain ms where s: "add_surface 2 invalidSurfaceMesh 14 = (E_FAIL, ms)"
    "vertices ms = [Some 11, Some 12, Some 13, None]" "vertexIdsAvail ms = {3}"
    "objId (heap ms 11) = 0"
    using invalid_surface_add by blast
  obtain mb where b: "add_body 2 invalidBodyMesh 15 = (E_FAIL, mb)"
    "surfaces mb = [Some 14, None]"
    using invalid_body_add by blast
  obtain mt where t: "add_structure (Suc 0) 2 invalidStructureMesh 16 = Some (E_FAIL, mt)"
    "bodies mt = [Some 15, None]"
    using invalid_structure_add by blast
  obtain mr where r: "removeObj (Suc (Suc 0)) danglingMesh (Some 11) = Some (E_FAIL, mr)"
    "vertices mr = [None, Some 12, Some 13, Some 14]" "vertexIdsAvail mr = {0}"
    "objId (heap mr 11) = - 1"
    using dangling_remove by blast
  have before: "vertices invalidSurfaceMesh = []" "vertexIdsAvail invalidSurfaceMesh = {}"
    "objId (heap invalidSurfaceMesh 11) = - 1" "surfaces invalidBodyMesh = []"
    "bodies invalidStructureMesh = []"
    "vertices danglingMesh = [Some 11, Some 12, Some 13, Some 14]"
    "vertexIdsAvail danglingMesh = {}" "objId (heap danglingMesh 11) = 0"
    by (simp_all add: invalidSurfaceMesh_def invalidBodyMesh_def invalidStructureMesh_def
          danglingMesh_def freshMesh_def quadMesh_def emptyMesh_def obj_defs)
  from a s b t r before show ?thesis by simp
qed

end
